theory Spec2Isabelle
  imports Complex_Main "HOL-Library.Word"
begin

section \<open>ECMAScript values\<close>

text \<open>
  The program is one React component, \<^verbatim>\<open>src/components/StrategyForm.tsx\<close>: a zod schema
  (\<^verbatim>\<open>StrategySchema\<close>), the encoder \<^verbatim>\<open>toBase64\<close> and the two values \<^verbatim>\<open>b64\<close> and
  \<^verbatim>\<open>pythonCmd\<close> computed on every render from the form state.

  A string of the program is a sequence of UTF-16 code units. A number is an IEEE double:
  not-a-number, an infinity, or a finite value. A finite value is represented by the rational
  it denotes; the rounding of a decimal text to the nearest double is not modelled, so a
  comparison with a bound of the schema is made on the exact decimal values (rounding is
  monotone, and a bound written in the schema is rounded like the same text typed in the form).
  The two zeros are one value.
\<close>

type_synonym code_unit = "16 word"
type_synonym jsstring = "code_unit list"

definition js :: "string \<Rightarrow> jsstring" where
  "js s = map (\<lambda>c. of_nat (of_char c)) s"

datatype jsnum = NaN | PosInf | NegInf | Num rat

text \<open>A value held by the form state: the initial state holds numbers and strings, an edit
  stores the control's text. A field that is \<^verbatim>\<open>undefined\<close> is absent from the map.\<close>

datatype jsval = JStr jsstring | JNum jsnum

subsection \<open>\<^verbatim>\<open>Number(value)\<close>: StringToNumber\<close>

text \<open>White space and line terminators that StringToNumber strips on both sides.\<close>

definition isStrWhiteSpaceChar :: "code_unit \<Rightarrow> bool" where
  "isStrWhiteSpaceChar c =
     (c \<in> set [0x9, 0xA, 0xB, 0xC, 0xD, 0x20, 0xA0, 0x1680, 0x2028, 0x2029, 0x202F,
                0x205F, 0x3000, 0xFEFF]
      \<or> (0x2000 \<le> c \<and> c \<le> 0x200A))"

definition trimString :: "jsstring \<Rightarrow> jsstring" where
  "trimString s = rev (dropWhile isStrWhiteSpaceChar (rev (dropWhile isStrWhiteSpaceChar s)))"

definition isDecimalDigit :: "code_unit \<Rightarrow> bool" where
  "isDecimalDigit c = (0x30 \<le> c \<and> c \<le> 0x39)"

text \<open>The value of a digit in a radix up to 16, if it is one.\<close>

definition digitValue :: "code_unit \<Rightarrow> nat option" where
  "digitValue c =
     (if 0x30 \<le> c \<and> c \<le> 0x39 then Some (unat c - 0x30)
      else if 0x61 \<le> c \<and> c \<le> 0x66 then Some (unat c - 0x61 + 10)
      else if 0x41 \<le> c \<and> c \<le> 0x46 then Some (unat c - 0x41 + 10)
      else None)"

definition isRadixDigit :: "nat \<Rightarrow> code_unit \<Rightarrow> bool" where
  "isRadixDigit radix c = (case digitValue c of Some d \<Rightarrow> d < radix | None \<Rightarrow> False)"

definition digitsValue :: "nat \<Rightarrow> jsstring \<Rightarrow> nat" where
  "digitsValue radix ds = foldl (\<lambda>acc c. acc * radix + (case digitValue c of Some d \<Rightarrow> d | None \<Rightarrow> 0)) 0 ds"

text \<open>\<^verbatim>\<open>0x\<close>, \<^verbatim>\<open>0o\<close> and \<^verbatim>\<open>0b\<close> literals: no sign, at least one digit.\<close>

definition nonDecimalRadix :: "jsstring \<Rightarrow> nat option" where
  "nonDecimalRadix t =
     (case t of
        z # x # _ \<Rightarrow>
          (if z \<noteq> 0x30 then None
           else if x = 0x78 \<or> x = 0x58 then Some 16
           else if x = 0x6F \<or> x = 0x4F then Some 8
           else if x = 0x62 \<or> x = 0x42 then Some 2
           else None)
      | _ \<Rightarrow> None)"

text \<open>ExponentPart: \<^verbatim>\<open>e\<close> or \<^verbatim>\<open>E\<close>, an optional sign, at least one digit, nothing after.
  The empty text is the absent exponent.\<close>

definition exponentPart :: "jsstring \<Rightarrow> int option" where
  "exponentPart r =
     (case r of
        [] \<Rightarrow> Some 0
      | e # r1 \<Rightarrow>
          (if e \<noteq> 0x65 \<and> e \<noteq> 0x45 then None
           else
             (let neg = (case r1 of s # _ \<Rightarrow> s = 0x2D | [] \<Rightarrow> False);
                  ds = (case r1 of s # r2 \<Rightarrow> (if s = 0x2B \<or> s = 0x2D then r2 else r1) | [] \<Rightarrow> [])
              in if ds \<noteq> [] \<and> list_all isDecimalDigit ds
                 then Some (if neg then - int (digitsValue 10 ds) else int (digitsValue 10 ds))
                 else None)))"

text \<open>StrUnsignedDecimalLiteral: \<^verbatim>\<open>Infinity\<close>, or digits with an optional fraction (digits on
  at least one side of the point) and an optional exponent.\<close>

definition unsignedDecimal :: "jsstring \<Rightarrow> jsnum" where
  "unsignedDecimal u =
     (if u = js ''Infinity'' then PosInf
      else
        (let ip = takeWhile isDecimalDigit u;
             r1 = dropWhile isDecimalDigit u;
             dot = (case r1 of c # _ \<Rightarrow> c = 0x2E | [] \<Rightarrow> False);
             fp = (if dot then takeWhile isDecimalDigit (tl r1) else []);
             r2 = (if dot then dropWhile isDecimalDigit (tl r1) else r1)
         in if ip = [] \<and> fp = [] then NaN
            else
              (case exponentPart r2 of
                 None \<Rightarrow> NaN
               | Some e \<Rightarrow>
                   Num (of_nat (digitsValue 10 (ip @ fp)) * 10 powi (e - int (length fp))))))"

definition negate :: "jsnum \<Rightarrow> jsnum" where
  "negate n = (case n of NaN \<Rightarrow> NaN | PosInf \<Rightarrow> NegInf | NegInf \<Rightarrow> PosInf | Num q \<Rightarrow> Num (- q))"

definition StringToNumber :: "jsstring \<Rightarrow> jsnum" where
  "StringToNumber s =
     (let t = trimString s in
      if t = [] then Num 0
      else
        (case nonDecimalRadix t of
           Some radix \<Rightarrow>
             (let ds = drop 2 t in
              if ds \<noteq> [] \<and> list_all (isRadixDigit radix) ds
              then Num (of_nat (digitsValue radix ds)) else NaN)
         | None \<Rightarrow>
             (case t of
                c # u \<Rightarrow>
                  (if c = 0x2B then unsignedDecimal u
                   else if c = 0x2D then negate (unsignedDecimal u)
                   else unsignedDecimal t)
              | [] \<Rightarrow> Num 0)))"

definition Number :: "jsval \<Rightarrow> jsnum" where
  "Number v = (case v of JNum n \<Rightarrow> n | JStr s \<Rightarrow> StringToNumber s)"

section \<open>The schema and its validation\<close>

text \<open>
  \<^verbatim>\<open>StrategySchema\<close> is a zod object schema. zod is a library, not code of the repository;
  its parsing is written out here for the three kinds of field the schema uses, as zod 3
  performs it: a \<^verbatim>\<open>default\<close> replaces an undefined input and hands the value to the inner
  type; \<^verbatim>\<open>z.string()\<close> accepts any string; \<^verbatim>\<open>z.enum\<close> accepts a string that is one of its
  options; \<^verbatim>\<open>z.coerce.number()\<close> applies \<^verbatim>\<open>Number\<close> to the input, refuses not-a-number, and
  then runs every check in the order written, each failed check adding one issue. The object
  parses every key of its shape in order and collects the issues of all of them.
\<close>

datatype config_key =
    symbols | timeframe | riskPerTradePct | maxOpenPositions | emaFast | emaSlow
  | rsiPeriod | atrPeriod | atrStopMultiplier | takeProfitRMultiple | trailingStopATR
  | dailyLossLimitPct | maxDrawdownPct | liveTrading | magicNumber

datatype zod_check = check_int | check_min rat | check_max rat

datatype zod_type = ZodString | ZodEnum "jsstring list" | ZodCoerceNumber "zod_check list"

text \<open>An entry of the shape: the key, the inner type and the value of \<^verbatim>\<open>.default(...)\<close>.\<close>

type_synonym shape_entry = "config_key \<times> zod_type \<times> jsval"

definition StrategySchema :: "shape_entry list" where
  "StrategySchema =
    [(symbols, ZodString, JStr (js ''EURUSD,GBPUSD'')),
     (timeframe,
        ZodEnum [js ''M1'', js ''M5'', js ''M15'', js ''M30'', js ''H1'', js ''H4'', js ''D1''],
        JStr (js ''M15'')),
     (riskPerTradePct, ZodCoerceNumber [check_min 0, check_max 10], JNum (Num 1)),
     (maxOpenPositions, ZodCoerceNumber [check_int, check_min 1, check_max 20], JNum (Num 3)),
     (emaFast, ZodCoerceNumber [check_int, check_min 2, check_max 200], JNum (Num 50)),
     (emaSlow, ZodCoerceNumber [check_int, check_min 5, check_max 400], JNum (Num 200)),
     (rsiPeriod, ZodCoerceNumber [check_int, check_min 2, check_max 50], JNum (Num 14)),
     (atrPeriod, ZodCoerceNumber [check_int, check_min 5, check_max 100], JNum (Num 14)),
     (atrStopMultiplier, ZodCoerceNumber [check_min (1 / 10), check_max 10], JNum (Num 2)),
     (takeProfitRMultiple, ZodCoerceNumber [check_min (1 / 10), check_max 10], JNum (Num 2)),
     (trailingStopATR, ZodCoerceNumber [check_min 0, check_max 10], JNum (Num (3 / 2))),
     (dailyLossLimitPct, ZodCoerceNumber [check_min 0, check_max 50], JNum (Num 5)),
     (maxDrawdownPct, ZodCoerceNumber [check_min 0, check_max 90], JNum (Num 20)),
     (liveTrading, ZodEnum [js ''false'', js ''true''], JStr (js ''false'')),
     (magicNumber, ZodCoerceNumber [check_int, check_min 1, check_max 999999],
        JNum (Num 424242))]"

subsection \<open>Issues\<close>

text \<open>
  The type names zod reports in an \<^verbatim>\<open>invalid_type\<close> issue; \<open>t_enum\<close> stands for the
  joined options an enum expects.
\<close>

datatype parsed_type = t_string | t_number | t_nan | t_integer | t_float | t_enum

text \<open>
  The code of an issue with what zod stores beside it: the expected and received type names;
  the received string and the options; the bound (both bounds of the schema are inclusive).
  The specification's CoercionError is \<open>invalid_type t_number t_nan\<close>, its RangeError is
  \<open>too_small\<close> or \<open>too_big\<close>, its MembershipError is \<open>invalid_enum_value\<close>.
\<close>

datatype issue_code =
    invalid_type parsed_type parsed_type
  | invalid_enum_value jsstring "jsstring list"
  | too_small rat
  | too_big rat

datatype ZodIssue = ZodIssue (issue_path: config_key) (issue_code: issue_code)

definition getParsedType :: "jsval \<Rightarrow> parsed_type" where
  "getParsedType v =
     (case v of JStr _ \<Rightarrow> t_string | JNum n \<Rightarrow> (if n = NaN then t_nan else t_number))"

subsection \<open>Number checks\<close>

definition isInteger :: "jsnum \<Rightarrow> bool" where
  "isInteger n = (case n of Num q \<Rightarrow> of_int \<lfloor>q\<rfloor> = q | _ \<Rightarrow> False)"

text \<open>The comparison \<^verbatim>\<open><\<close> of two numbers; false when either is not-a-number.\<close>

fun less_num :: "jsnum \<Rightarrow> jsnum \<Rightarrow> bool" where
  "less_num (Num a) (Num b) = (a < b)"
| "less_num NegInf (Num b) = True"
| "less_num NegInf PosInf = True"
| "less_num (Num a) PosInf = True"
| "less_num _ _ = False"

definition run_check :: "jsnum \<Rightarrow> zod_check \<Rightarrow> issue_code list" where
  "run_check n c =
     (case c of
        check_int \<Rightarrow> (if isInteger n then [] else [invalid_type t_integer t_float])
      | check_min v \<Rightarrow> (if less_num n (Num v) then [too_small v] else [])
      | check_max v \<Rightarrow> (if less_num (Num v) n then [too_big v] else []))"

subsection \<open>Parsing one field and the object\<close>

text \<open>The issues of a value against a type, and the value the type returns.\<close>

definition parse_type :: "zod_type \<Rightarrow> jsval \<Rightarrow> issue_code list \<times> jsval" where
  "parse_type t v =
     (case t of
        ZodString \<Rightarrow>
          (case v of
             JStr _ \<Rightarrow> ([], v)
           | JNum _ \<Rightarrow> ([invalid_type t_string (getParsedType v)], v))
      | ZodEnum options \<Rightarrow>
          (case v of
             JStr s \<Rightarrow> (if s \<in> set options then ([], v) else ([invalid_enum_value s options], v))
           | JNum _ \<Rightarrow> ([invalid_type t_enum (getParsedType v)], v))
      | ZodCoerceNumber checks \<Rightarrow>
          (let n = Number v in
           if n = NaN then ([invalid_type t_number t_nan], JNum n)
           else (concat (map (run_check n) checks), JNum n)))"

type_synonym formstate = "config_key \<rightharpoonup> jsval"
type_synonym jsobject = "(config_key \<times> jsval) list"

text \<open>ZodDefault: an undefined input is replaced by the default before the inner type runs.\<close>

definition parse_entry :: "formstate \<Rightarrow> shape_entry \<Rightarrow> issue_code list \<times> jsval" where
  "parse_entry raw e =
     (case e of (k, t, d) \<Rightarrow> parse_type t (case raw k of None \<Rightarrow> d | Some v \<Rightarrow> v))"

definition entry_issues :: "formstate \<Rightarrow> shape_entry \<Rightarrow> ZodIssue list" where
  "entry_issues raw e = map (ZodIssue (fst e)) (fst (parse_entry raw e))"

text \<open>\<^verbatim>\<open>schema.safeParse(raw)\<close>: \<open>Inl\<close> is \<^verbatim>\<open>{success: false, error}\<close> with the issues of the
  error, \<open>Inr\<close> is \<^verbatim>\<open>{success: true, data}\<close> with the keys of the shape in order.\<close>

definition safeParse :: "shape_entry list \<Rightarrow> formstate \<Rightarrow> ZodIssue list + jsobject" where
  "safeParse shape raw =
     (let issues = concat (map (entry_issues raw) shape) in
      if issues = [] then Inr (map (\<lambda>e. (fst e, snd (parse_entry raw e))) shape)
      else Inl issues)"

section \<open>The canonical serialization: \<^verbatim>\<open>JSON.stringify\<close>\<close>

definition key_name :: "config_key \<Rightarrow> string" where
  "key_name k =
     (case k of
        symbols \<Rightarrow> ''symbols'' | timeframe \<Rightarrow> ''timeframe''
      | riskPerTradePct \<Rightarrow> ''riskPerTradePct'' | maxOpenPositions \<Rightarrow> ''maxOpenPositions''
      | emaFast \<Rightarrow> ''emaFast'' | emaSlow \<Rightarrow> ''emaSlow'' | rsiPeriod \<Rightarrow> ''rsiPeriod''
      | atrPeriod \<Rightarrow> ''atrPeriod'' | atrStopMultiplier \<Rightarrow> ''atrStopMultiplier''
      | takeProfitRMultiple \<Rightarrow> ''takeProfitRMultiple'' | trailingStopATR \<Rightarrow> ''trailingStopATR''
      | dailyLossLimitPct \<Rightarrow> ''dailyLossLimitPct'' | maxDrawdownPct \<Rightarrow> ''maxDrawdownPct''
      | liveTrading \<Rightarrow> ''liveTrading'' | magicNumber \<Rightarrow> ''magicNumber'')"

definition isLeadingSurrogate :: "code_unit \<Rightarrow> bool" where
  "isLeadingSurrogate u = (0xD800 \<le> u \<and> u \<le> 0xDBFF)"

definition isTrailingSurrogate :: "code_unit \<Rightarrow> bool" where
  "isTrailingSurrogate u = (0xDC00 \<le> u \<and> u \<le> 0xDFFF)"

text \<open>A hexadecimal digit; \<open>a\<close> is the code unit of the digit ten (\<^verbatim>\<open>a\<close> or \<^verbatim>\<open>A\<close>).\<close>

definition hexDigit :: "nat \<Rightarrow> nat \<Rightarrow> code_unit" where
  "hexDigit a d = of_nat (if d < 10 then 0x30 + d else a + (d - 10))"

text \<open>UnicodeEscape: \<^verbatim>\<open>\u\<close> and four lower-case hexadecimal digits.\<close>

definition UnicodeEscape :: "code_unit \<Rightarrow> jsstring" where
  "UnicodeEscape u =
     (let n = unat u in
      [0x5C, 0x75, hexDigit 0x61 (n div 4096), hexDigit 0x61 (n div 256 mod 16),
       hexDigit 0x61 (n div 16 mod 16), hexDigit 0x61 (n mod 16)])"

text \<open>
  The body of QuoteJSONString, over the code points of the string: the short escapes, a
  \<^verbatim>\<open>\u\<close> escape for the other control characters and for a surrogate without its partner,
  anything else as it is (a surrogate pair stays a pair).
\<close>

fun quoteChars :: "jsstring \<Rightarrow> jsstring" where
  "quoteChars [] = []"
| "quoteChars (u # rest) =
     (if u = 0x08 then [0x5C, 0x62] @ quoteChars rest
      else if u = 0x09 then [0x5C, 0x74] @ quoteChars rest
      else if u = 0x0A then [0x5C, 0x6E] @ quoteChars rest
      else if u = 0x0C then [0x5C, 0x66] @ quoteChars rest
      else if u = 0x0D then [0x5C, 0x72] @ quoteChars rest
      else if u = 0x22 then [0x5C, 0x22] @ quoteChars rest
      else if u = 0x5C then [0x5C, 0x5C] @ quoteChars rest
      else if u < 0x20 then UnicodeEscape u @ quoteChars rest
      else if isLeadingSurrogate u then
        (case rest of
           v # rest' \<Rightarrow>
             (if isTrailingSurrogate v then u # v # quoteChars rest'
              else UnicodeEscape u @ quoteChars rest)
         | [] \<Rightarrow> UnicodeEscape u)
      else if isTrailingSurrogate u then UnicodeEscape u @ quoteChars rest
      else u # quoteChars rest)"

definition QuoteJSONString :: "jsstring \<Rightarrow> jsstring" where
  "QuoteJSONString s = [0x22] @ quoteChars s @ [0x22]"

text \<open>
  Number::toString in radix 10 of a finite value, on its exact decimal expansion: the sign, the
  digits of the integer part and, when there is a fraction, the point and the digits of the
  fraction, cut after 17 digits. The runtime prints the shortest digits that read back as the
  same double, at most 17 of them, with an exponent below \<^verbatim>\<open>1e-6\<close> and from \<^verbatim>\<open>1e21\<close>.
  The two agree on an integer below \<^verbatim>\<open>1e21\<close> and on a decimal fraction of at most 15
  significant digits that is at least \<^verbatim>\<open>1e-6\<close>: on the defaults of the schema and on what
  the form's number controls ordinarily hold. No theorem below depends on the digits printed.
\<close>

fun decimalDigits :: "nat \<Rightarrow> jsstring" where
  "decimalDigits n =
     (if n < 10 then [of_nat (0x30 + n)]
      else decimalDigits (n div 10) @ [of_nat (0x30 + n mod 10)])"

fun fractionDigits :: "nat \<Rightarrow> rat \<Rightarrow> jsstring" where
  "fractionDigits 0 f = []"
| "fractionDigits (Suc k) f =
     (if f = 0 then []
      else of_nat (0x30 + nat \<lfloor>f * 10\<rfloor>) # fractionDigits k (f * 10 - of_int \<lfloor>f * 10\<rfloor>))"

definition Number_toString :: "rat \<Rightarrow> jsstring" where
  "Number_toString q =
     (let a = \<bar>q\<bar>; f = a - of_int \<lfloor>a\<rfloor> in
      (if q < 0 then [0x2D] else [])
      @ decimalDigits (nat \<lfloor>a\<rfloor>)
      @ (if f = 0 then [] else 0x2E # fractionDigits 17 f))"

text \<open>SerializeJSONProperty for the values a configuration holds: a string is quoted, a finite
  number is printed, any other number is \<^verbatim>\<open>null\<close>.\<close>

definition SerializeJSONProperty :: "jsval \<Rightarrow> jsstring" where
  "SerializeJSONProperty v =
     (case v of
        JStr s \<Rightarrow> QuoteJSONString s
      | JNum (Num q) \<Rightarrow> Number_toString q
      | JNum _ \<Rightarrow> js ''null'')"

fun joinWith :: "jsstring \<Rightarrow> jsstring list \<Rightarrow> jsstring" where
  "joinWith sep [] = []"
| "joinWith sep [x] = x"
| "joinWith sep (x # y # ys) = x @ sep @ joinWith sep (y # ys)"

text \<open>SerializeJSONObject without a gap: the properties in the order of the object's keys,
  separated by commas, between braces.\<close>

definition JSON_stringify :: "jsobject \<Rightarrow> jsstring" where
  "JSON_stringify obj =
     [0x7B]
     @ joinWith [0x2C]
         (map (\<lambda>(k, v). QuoteJSONString (js (key_name k)) @ [0x3A] @ SerializeJSONProperty v) obj)
     @ [0x7D]"

section \<open>The encoder\<close>

subsection \<open>\<^verbatim>\<open>encodeURIComponent\<close>\<close>

text \<open>The UTF-8 octets of a code point.\<close>

definition utf8_octets :: "nat \<Rightarrow> nat list" where
  "utf8_octets cp =
     (if cp < 0x80 then [cp]
      else if cp < 0x800 then [0xC0 + cp div 64, 0x80 + cp mod 64]
      else if cp < 0x10000 then [0xE0 + cp div 4096, 0x80 + cp div 64 mod 64, 0x80 + cp mod 64]
      else [0xF0 + cp div 262144, 0x80 + cp div 4096 mod 64, 0x80 + cp div 64 mod 64,
            0x80 + cp mod 64])"

text \<open>The code point of a surrogate pair.\<close>

definition UTF16SurrogatePairToCodePoint :: "code_unit \<Rightarrow> code_unit \<Rightarrow> nat" where
  "UTF16SurrogatePairToCodePoint lead trail =
     (unat lead - 0xD800) * 0x400 + (unat trail - 0xDC00) + 0x10000"

text \<open>The characters \<^verbatim>\<open>encodeURIComponent\<close> leaves as they are: letters, digits and
  \<^verbatim>\<open>- _ . ! ~ * ' ( )\<close>.\<close>

definition uriUnescaped :: "code_unit \<Rightarrow> bool" where
  "uriUnescaped u =
     (let n = unat u in
      (0x41 \<le> n \<and> n \<le> 0x5A) \<or> (0x61 \<le> n \<and> n \<le> 0x7A) \<or> (0x30 \<le> n \<and> n \<le> 0x39)
      \<or> n \<in> set [0x2D, 0x5F, 0x2E, 0x21, 0x7E, 0x2A, 0x27, 0x28, 0x29])"

text \<open>An octet as \<^verbatim>\<open>%\<close> and two upper-case hexadecimal digits.\<close>

definition percentEncode :: "nat \<Rightarrow> jsstring" where
  "percentEncode b = [0x25, hexDigit 0x41 (b div 16), hexDigit 0x41 (b mod 16)]"

text \<open>
  Encode: an unescaped character is copied; any other code point is replaced by the escapes
  of its UTF-8 octets; a surrogate without its partner throws URIError (\<open>None\<close>).
\<close>

fun encodeURIComponent :: "jsstring \<Rightarrow> jsstring option" where
  "encodeURIComponent [] = Some []"
| "encodeURIComponent (u # rest) =
     (if uriUnescaped u then map_option ((#) u) (encodeURIComponent rest)
      else if isLeadingSurrogate u then
        (case rest of
           v # rest' \<Rightarrow>
             (if isTrailingSurrogate v
              then map_option
                     ((@) (concat (map percentEncode
                        (utf8_octets (UTF16SurrogatePairToCodePoint u v)))))
                     (encodeURIComponent rest')
              else None)
         | [] \<Rightarrow> None)
      else if isTrailingSurrogate u then None
      else map_option ((@) (concat (map percentEncode (utf8_octets (unat u)))))
             (encodeURIComponent rest))"

subsection \<open>\<^verbatim>\<open>unescape\<close>\<close>

definition isHexDigit :: "code_unit \<Rightarrow> bool" where
  "isHexDigit c = isRadixDigit 16 c"

text \<open>Whether the text after a \<^verbatim>\<open>%\<close> starts with \<^verbatim>\<open>u\<close> and four hexadecimal digits, or with
  two hexadecimal digits.\<close>

definition isUnicodeEscape :: "jsstring \<Rightarrow> bool" where
  "isUnicodeEscape cs = (5 \<le> length cs \<and> hd cs = 0x75 \<and> list_all isHexDigit (take 4 (tl cs)))"

definition isHexEscape :: "jsstring \<Rightarrow> bool" where
  "isHexEscape cs = (2 \<le> length cs \<and> list_all isHexDigit (take 2 cs))"

function unescape :: "jsstring \<Rightarrow> jsstring" where
  "unescape [] = []"
| "unescape (c # cs) =
     (if c = 0x25 \<and> isUnicodeEscape cs
        then of_nat (digitsValue 16 (take 4 (tl cs))) # unescape (drop 5 cs)
      else if c = 0x25 \<and> isHexEscape cs
        then of_nat (digitsValue 16 (take 2 cs)) # unescape (drop 2 cs)
      else c # unescape cs)"
  by pat_completeness auto
termination
  by (relation "measure length") auto

subsection \<open>\<^verbatim>\<open>btoa\<close>\<close>

text \<open>The base-64 alphabet: \<^verbatim>\<open>A-Z\<close>, \<^verbatim>\<open>a-z\<close>, \<^verbatim>\<open>0-9\<close>, \<^verbatim>\<open>+\<close> and \<^verbatim>\<open>/\<close>.\<close>

definition b64char :: "nat \<Rightarrow> code_unit" where
  "b64char i =
     of_nat
       (if i < 26 then 0x41 + i
        else if i < 52 then 0x61 + (i - 26)
        else if i < 62 then 0x30 + (i - 52)
        else if i = 62 then 0x2B
        else 0x2F)"

text \<open>Three octets give four characters; a last group of one or two octets is padded with
  \<^verbatim>\<open>=\<close>. No line break is ever added.\<close>

fun base64 :: "nat list \<Rightarrow> jsstring" where
  "base64 [] = []"
| "base64 [a] = [b64char (a div 4), b64char (a mod 4 * 16), 0x3D, 0x3D]"
| "base64 [a, b] =
     [b64char (a div 4), b64char (a mod 4 * 16 + b div 16), b64char (b mod 16 * 4), 0x3D]"
| "base64 (a # b # c # rest) =
     [b64char (a div 4), b64char (a mod 4 * 16 + b div 16),
      b64char (b mod 16 * 4 + c div 64), b64char (c mod 64)] @ base64 rest"

text \<open>\<^verbatim>\<open>btoa\<close> reads every code unit as one octet and throws InvalidCharacterError
  (\<open>None\<close>) on a code unit above 255.\<close>

definition btoa :: "jsstring \<Rightarrow> jsstring option" where
  "btoa s = (if list_all (\<lambda>u. u \<le> 0xFF) s then Some (base64 (map unat s)) else None)"

subsection \<open>\<^verbatim>\<open>toBase64\<close>\<close>

text \<open>Where the component is evaluated: on the server \<^verbatim>\<open>window\<close> is undefined.\<close>

datatype environment = Server | Browser

definition window_undefined :: "environment \<Rightarrow> bool" where
  "window_undefined env = (env = Server)"

text \<open>\<open>None\<close> is an exception thrown by \<^verbatim>\<open>encodeURIComponent\<close> or by \<^verbatim>\<open>btoa\<close>.\<close>

definition toBase64 :: "environment \<Rightarrow> jsobject \<Rightarrow> jsstring option" where
  "toBase64 env json =
     (if window_undefined env then Some []
      else Option.bind (encodeURIComponent (JSON_stringify json)) (\<lambda>e. btoa (unescape e)))"

section \<open>The component\<close>

text \<open>The initial state of the form.\<close>

definition initial_form :: formstate where
  "initial_form =
     [symbols \<mapsto> JStr (js ''EURUSD,GBPUSD''),
      timeframe \<mapsto> JStr (js ''M15''),
      riskPerTradePct \<mapsto> JNum (Num 1),
      maxOpenPositions \<mapsto> JNum (Num 3),
      emaFast \<mapsto> JNum (Num 50),
      emaSlow \<mapsto> JNum (Num 200),
      rsiPeriod \<mapsto> JNum (Num 14),
      atrPeriod \<mapsto> JNum (Num 14),
      atrStopMultiplier \<mapsto> JNum (Num 2),
      takeProfitRMultiple \<mapsto> JNum (Num 2),
      trailingStopATR \<mapsto> JNum (Num (3 / 2)),
      dailyLossLimitPct \<mapsto> JNum (Num 5),
      maxDrawdownPct \<mapsto> JNum (Num 20),
      liveTrading \<mapsto> JStr (js ''false''),
      magicNumber \<mapsto> JNum (Num 424242)]"

text \<open>An edit stores the text of the control under the control's name.\<close>

definition handleChange :: "formstate \<Rightarrow> config_key \<Rightarrow> jsstring \<Rightarrow> formstate" where
  "handleChange prev name text = prev(name \<mapsto> JStr text)"

definition parsed :: "formstate \<Rightarrow> ZodIssue list + jsobject" where
  "parsed form = safeParse StrategySchema form"

definition b64 :: "environment \<Rightarrow> formstate \<Rightarrow> jsstring option" where
  "b64 env form = (case parsed form of Inr data \<Rightarrow> toBase64 env data | Inl _ \<Rightarrow> Some [])"

definition pythonCmd :: "environment \<Rightarrow> formstate \<Rightarrow> jsstring option" where
  "pythonCmd env form =
     (case parsed form of
        Inr _ \<Rightarrow>
          map_option
            (\<lambda>p. js ''python mt5_connector/connector.py --config-b64 '' @ [0x27] @ p @ [0x27])
            (b64 env form)
      | Inl _ \<Rightarrow> Some [])"

section \<open>The decoder of the payload\<close>

text \<open>
  Modelled from the spec: the decoder is the executor's side (\<^verbatim>\<open>mt5_connector/connector.py\<close>),
  which is not among the sources. The specification's \<open>decode\<close> is the inverse transport:
  base-64 decoding of the payload and reading the octets as UTF-8 text.
\<close>

definition b64index :: "code_unit \<Rightarrow> nat option" where
  "b64index c =
     (let n = unat c in
      if 0x41 \<le> n \<and> n \<le> 0x5A then Some (n - 0x41)
      else if 0x61 \<le> n \<and> n \<le> 0x7A then Some (n - 0x61 + 26)
      else if 0x30 \<le> n \<and> n \<le> 0x39 then Some (n - 0x30 + 52)
      else if n = 0x2B then Some 62
      else if n = 0x2F then Some 63
      else None)"

text \<open>Modelled from the spec: standard base-64 decoding, four characters at a time, the
  padding only in the last group.\<close>

fun base64_decode :: "jsstring \<Rightarrow> nat list option" where
  "base64_decode [] = Some []"
| "base64_decode (c1 # c2 # c3 # c4 # rest) =
     (case (b64index c1, b64index c2) of
        (Some i1, Some i2) \<Rightarrow>
          (if rest = [] \<and> c3 = 0x3D \<and> c4 = 0x3D then Some [i1 * 4 + i2 div 16]
           else
             (case b64index c3 of
                None \<Rightarrow> None
              | Some i3 \<Rightarrow>
                  (if rest = [] \<and> c4 = 0x3D
                   then Some [i1 * 4 + i2 div 16, i2 mod 16 * 16 + i3 div 4]
                   else
                     (case b64index c4 of
                        None \<Rightarrow> None
                      | Some i4 \<Rightarrow>
                          map_option
                            ((@) [i1 * 4 + i2 div 16, i2 mod 16 * 16 + i3 div 4,
                                  i3 mod 4 * 64 + i4])
                            (base64_decode rest)))))
      | _ \<Rightarrow> None)"
| "base64_decode _ = None"

text \<open>Modelled from the spec: a continuation octet of UTF-8, \<^verbatim>\<open>10xxxxxx\<close>.\<close>

definition isContinuation :: "nat \<Rightarrow> bool" where
  "isContinuation b = (0x80 \<le> b \<and> b < 0xC0)"

text \<open>Modelled from the spec: UTF-8 decoding to code points, refusing a stray or missing
  continuation octet, an overlong form, a surrogate and a value above \<^verbatim>\<open>10FFFF\<close>.\<close>

fun utf8_decode :: "nat list \<Rightarrow> nat list option" where
  "utf8_decode [] = Some []"
| "utf8_decode (b0 # bs) =
     (if b0 < 0x80 then map_option ((#) b0) (utf8_decode bs)
      else if 0xC0 \<le> b0 \<and> b0 < 0xE0 then
        (case bs of
           b1 # r \<Rightarrow>
             (let cp = (b0 - 0xC0) * 64 + (b1 - 0x80) in
              if isContinuation b1 \<and> 0x80 \<le> cp then map_option ((#) cp) (utf8_decode r)
              else None)
         | _ \<Rightarrow> None)
      else if 0xE0 \<le> b0 \<and> b0 < 0xF0 then
        (case bs of
           b1 # b2 # r \<Rightarrow>
             (let cp = (b0 - 0xE0) * 4096 + (b1 - 0x80) * 64 + (b2 - 0x80) in
              if isContinuation b1 \<and> isContinuation b2 \<and> 0x800 \<le> cp
                 \<and> \<not> (0xD800 \<le> cp \<and> cp \<le> 0xDFFF)
              then map_option ((#) cp) (utf8_decode r)
              else None)
         | _ \<Rightarrow> None)
      else if 0xF0 \<le> b0 \<and> b0 < 0xF8 then
        (case bs of
           b1 # b2 # b3 # r \<Rightarrow>
             (let cp = (b0 - 0xF0) * 262144 + (b1 - 0x80) * 4096 + (b2 - 0x80) * 64
                        + (b3 - 0x80) in
              if isContinuation b1 \<and> isContinuation b2 \<and> isContinuation b3
                 \<and> 0x10000 \<le> cp \<and> cp \<le> 0x10FFFF
              then map_option ((#) cp) (utf8_decode r)
              else None)
         | _ \<Rightarrow> None)
      else None)"

text \<open>StringToCodePoints: the code points of a string. A surrogate pair is one code point;
  a surrogate without its partner is a code point of its own.\<close>

fun StringToCodePoints :: "jsstring \<Rightarrow> nat list" where
  "StringToCodePoints [] = []"
| "StringToCodePoints (u # rest) =
     (if isLeadingSurrogate u then
        (case rest of
           v # rest' \<Rightarrow>
             (if isTrailingSurrogate v
              then UTF16SurrogatePairToCodePoint u v # StringToCodePoints rest'
              else unat u # StringToCodePoints rest)
         | [] \<Rightarrow> [unat u])
      else unat u # StringToCodePoints rest)"

text \<open>A code point as one code unit, or as a surrogate pair above the basic plane.\<close>

definition UTF16EncodeCodePoint :: "nat \<Rightarrow> jsstring" where
  "UTF16EncodeCodePoint cp =
     (if cp < 0x10000 then [of_nat cp]
      else [of_nat (0xD800 + (cp - 0x10000) div 0x400),
            of_nat (0xDC00 + (cp - 0x10000) mod 0x400)])"

text \<open>Modelled from the spec: \<open>decode\<close>, from the payload to the text it carries (as a string
  of the program, to compare it with the serialization).\<close>

definition decode :: "jsstring \<Rightarrow> jsstring option" where
  "decode payload =
     Option.bind (base64_decode payload)
       (\<lambda>octets. map_option (\<lambda>cps. concat (map UTF16EncodeCodePoint cps)) (utf8_decode octets))"

section \<open>Notions of the specification\<close>



text \<open>The alphabet of the payload according to the specification: \<^verbatim>\<open>[A-Za-z0-9+/=]\<close>.\<close>

definition isBase64Char :: "code_unit \<Rightarrow> bool" where
  "isBase64Char c =
     (let n = unat c in
      (0x41 \<le> n \<and> n \<le> 0x5A) \<or> (0x61 \<le> n \<and> n \<le> 0x7A) \<or> (0x30 \<le> n \<and> n \<le> 0x39)
      \<or> n = 0x2B \<or> n = 0x2F \<or> n = 0x3D)"

text \<open>A Unicode scalar value: a code point that is not a surrogate.\<close>

definition isScalarValue :: "nat \<Rightarrow> bool" where
  "isScalarValue cp = (cp < 0x110000 \<and> \<not> (0xD800 \<le> cp \<and> cp \<le> 0xDFFF))"

text \<open>The octets of the UTF-8 encoding of a string.\<close>

definition UTF8 :: "jsstring \<Rightarrow> nat list" where
  "UTF8 s = concat (map utf8_octets (StringToCodePoints s))"

text \<open>A string that \<^verbatim>\<open>encodeURIComponent\<close> accepts.\<close>

definition encodable :: "jsstring \<Rightarrow> bool" where
  "encodable s = (encodeURIComponent s \<noteq> None)"

section \<open>Validation of one edited field\<close>

lemma distinct_keys: "distinct (map fst StrategySchema)"
  by (simp add: StrategySchema_def)

lemma entry_issues_other:
  "fst e \<noteq> k \<Longrightarrow> entry_issues (form(k \<mapsto> v)) e = entry_issues form e"
  by (cases e) (simp add: entry_issues_def parse_entry_def)

lemma entry_issues_same:
  "entry_issues (form(k \<mapsto> v)) (k, t, d) = map (ZodIssue k) (fst (parse_type t v))"
  by (simp add: entry_issues_def parse_entry_def)

lemma issues_unchanged:
  "k \<notin> fst ` set S \<Longrightarrow> map (entry_issues (form(k \<mapsto> v))) S = map (entry_issues form) S"
  by (rule map_cong) (auto intro: entry_issues_other)

lemma issues_update:
  "distinct (map fst S) \<Longrightarrow> (k, t, d) \<in> set S
   \<Longrightarrow> concat (map (entry_issues form) S) = []
   \<Longrightarrow> concat (map (entry_issues (form(k \<mapsto> v))) S) = map (ZodIssue k) (fst (parse_type t v))"
proof (induction S)
  case Nil
  then show ?case by simp
next
  case (Cons e S)
  from Cons.prems have rest: "concat (map (entry_issues form) S) = []"
    and first: "entry_issues form e = []"
    by simp_all
  show ?case
  proof (cases "e = (k, t, d)")
    case True
    with Cons.prems have "k \<notin> fst ` set S"
      by auto
    then have "concat (map (entry_issues (form(k \<mapsto> v))) S) = []"
      using rest issues_unchanged [of k S form v] by simp
    with True show ?thesis
      by (simp only: list.map concat.simps entry_issues_same append_Nil2)
  next
    case False
    with Cons.prems have in_S: "(k, t, d) \<in> set S"
      by simp
    then have "k \<in> fst ` set S"
      by force
    with Cons.prems have other: "fst e \<noteq> k"
      by auto
    from Cons.prems have "distinct (map fst S)"
      by simp
    from Cons.IH [OF this in_S rest]
    have tail: "concat (map (entry_issues (form(k \<mapsto> v))) S)
                  = map (ZodIssue k) (fst (parse_type t v))" .
    have head: "entry_issues (form(k \<mapsto> v)) e = []"
      using first entry_issues_other [OF other, of form v] by (simp only:)
    show ?thesis
      by (simp only: list.map concat.simps head tail append_Nil)
  qed
qed

lemma parsed_Inr_iff: "(\<exists>data. parsed form = Inr data) \<longleftrightarrow> concat (map (entry_issues form) StrategySchema) = []"
  by (auto simp: parsed_def safeParse_def Let_def)

lemma parsed_update:
  assumes "parsed form = Inr data" "(k, t, d) \<in> set StrategySchema"
  shows "parsed (form(k \<mapsto> v)) =
           (if fst (parse_type t v) = []
            then Inr (map (\<lambda>e. (fst e, snd (parse_entry (form(k \<mapsto> v)) e))) StrategySchema)
            else Inl (map (ZodIssue k) (fst (parse_type t v))))"
proof -
  from assms(1) have "concat (map (entry_issues form) StrategySchema) = []"
    using parsed_Inr_iff by blast
  from issues_update [OF distinct_keys assms(2) this]
  show ?thesis
    by (simp add: parsed_def safeParse_def Let_def)
qed

lemma map_of_output:
  "distinct (map fst S) \<Longrightarrow> e \<in> set S \<Longrightarrow> map_of (map (\<lambda>e. (fst e, f e)) S) (fst e) = Some (f e)"
  by (induction S) (auto simp: rev_image_eqI)

lemma parsed_data:
  "parsed form = Inr data \<Longrightarrow> data = map (\<lambda>e. (fst e, snd (parse_entry form e))) StrategySchema"
  by (auto simp: parsed_def safeParse_def Let_def split: if_splits)

lemma default_output: "(k, t, d) \<in> set StrategySchema \<Longrightarrow> snd (parse_type t d) = d"
  unfolding StrategySchema_def by (auto simp: parse_type_def Number_def Let_def)

lemma symbols_entry: "(symbols, ZodString, JStr (js ''EURUSD,GBPUSD'')) \<in> set StrategySchema"
  by (simp add: StrategySchema_def)

lemma parse_enum_ok: "fst (parse_type (ZodEnum options) v) = [] \<longleftrightarrow> (\<exists>s. v = JStr s \<and> s \<in> set options)"
  by (cases v) (simp_all add: parse_type_def)

lemma run_checks_bounds:
  assumes "(k, ZodCoerceNumber checks, d) \<in> set StrategySchema"
    and "check_min lo \<in> set checks" and "check_max hi \<in> set checks"
  shows "concat (map (run_check (Num lo)) checks) = []"
    and "concat (map (run_check (Num hi)) checks) = []"
    and "concat (map (run_check (Num (lo - 1))) checks) = [too_small lo]"
    and "concat (map (run_check (Num (hi + 1))) checks) = [too_big hi]"
  using assms unfolding StrategySchema_def
  by (auto simp: run_check_def isInteger_def)

lemma parse_number:
  "Number v = Num q \<Longrightarrow>
     fst (parse_type (ZodCoerceNumber checks) v) = concat (map (run_check (Num q)) checks)"
  by (simp add: parse_type_def Let_def)

section \<open>Coercion of a text to a number\<close>







section \<open>Collected issues\<close>



section \<open>Base-64 and its decoding\<close>

lemma unat_unit: "n < 65536 \<Longrightarrow> unat (of_nat n :: code_unit) = n"
  by (simp add: unat_of_nat)

lemma unat_b64char:
  "unat (b64char i) =
     (if i < 26 then 0x41 + i else if i < 52 then 0x61 + (i - 26)
      else if i < 62 then 0x30 + (i - 52) else if i = 62 then 0x2B else 0x2F)"
  unfolding b64char_def by (rule unat_unit) auto

lemma b64index_b64char: "i < 64 \<Longrightarrow> b64index (b64char i) = Some i"
  unfolding b64index_def unat_b64char Let_def by (simp; linarith)

lemma b64char_not_pad: "b64char i \<noteq> 0x3D"
proof
  assume "b64char i = 0x3D"
  then have "unat (b64char i) = unat (0x3D :: code_unit)"
    by (rule arg_cong)
  then show False
    unfolding unat_b64char by (simp split: if_splits)
qed

lemma sextets:
  fixes a b c :: nat
  assumes "b < 256" "c < 256"
  shows "a div 4 * 4 + (a mod 4 * 16 + b div 16) div 16 = a"
    and "(a mod 4 * 16 + b div 16) mod 16 * 16 + (b mod 16 * 4 + c div 64) div 4 = b"
    and "(b mod 16 * 4 + c div 64) mod 4 * 64 + c mod 64 = c"
    and "a mod 4 * 16 + b div 16 < 64"
    and "b mod 16 * 4 + c div 64 < 64"
proof -
  have b: "b div 16 < 16" and c: "c div 64 < 4"
    using assms by simp_all
  have m: "a mod 4 < 4" "b mod 16 < 16"
    by simp_all
  from b have 1: "(a mod 4 * 16 + b div 16) div 16 = a mod 4"
    and 2: "(a mod 4 * 16 + b div 16) mod 16 = b div 16"
    by simp_all
  from c have 3: "(b mod 16 * 4 + c div 64) div 4 = b mod 16"
    and 4: "(b mod 16 * 4 + c div 64) mod 4 = c div 64"
    by simp_all
  show "a div 4 * 4 + (a mod 4 * 16 + b div 16) div 16 = a"
    unfolding 1 by simp
  show "(a mod 4 * 16 + b div 16) mod 16 * 16 + (b mod 16 * 4 + c div 64) div 4 = b"
    unfolding 2 3 by simp
  show "(b mod 16 * 4 + c div 64) mod 4 * 64 + c mod 64 = c"
    unfolding 4 by simp
  show "a mod 4 * 16 + b div 16 < 64"
    using b m by linarith
  show "b mod 16 * 4 + c div 64 < 64"
    using c m by linarith
qed

lemma base64_decode_base64:
  "list_all (\<lambda>b. b < 256) bs \<Longrightarrow> base64_decode (base64 bs) = Some bs"
proof (induction bs rule: base64.induct)
  case 1
  then show ?case by simp
next
  case (2 a)
  then have "a div 4 < 64" "a mod 4 * 16 < 64"
    by simp_all
  moreover have "a div 4 * 4 + a mod 4 * 16 div 16 = a"
    by simp
  ultimately show ?case
    by (simp add: b64index_b64char)
next
  case (3 a b)
  then have a: "a < 256" and b: "b < 256"
    by simp_all
  have "b mod 16 * 4 < 64"
    using mod_less_divisor [of 16 b] by linarith
  moreover have "(0::nat) < 256"
    by simp
  note sextets [OF b this]
  ultimately show ?case
    using a b
    by (simp add: b64index_b64char b64char_not_pad)
next
  case (4 a b c rest)
  then have a: "a < 256" and b: "b < 256" and c: "c < 256"
    and IH: "base64_decode (base64 rest) = Some rest"
    by simp_all
  from a sextets [OF b c] b c IH show ?case
    by (simp add: b64index_b64char b64char_not_pad)
qed

section \<open>UTF-8 and its decoding\<close>

lemma shift64: "(q::nat) div 64 * (64 * k) + q mod 64 * k = q * k"
proof -
  have "q div 64 * (64 * k) + q mod 64 * k = (q div 64 * 64 + q mod 64) * k"
    by (simp only: distrib_right mult.assoc)
  also have "\<dots> = q * k"
    by (simp only: div_mult_mod_eq)
  finally show ?thesis .
qed
lemma three_octets_value: "(cp::nat) div 4096 * 4096 + cp div 64 mod 64 * 64 + cp mod 64 = cp"
proof -
  have a: "cp div 4096 = cp div 64 div 64"
    using div_mult2_eq [of cp 64 64] by simp
  have "cp div 64 div 64 * 4096 + cp div 64 mod 64 * 64 = cp div 64 * 64"
    using shift64 [of "cp div 64" 64] by simp
  then show ?thesis
    unfolding a by simp
qed
lemma four_octets_value: "(cp::nat) div 262144 * 262144 + cp div 4096 mod 64 * 4096 + cp div 64 mod 64 * 64 + cp mod 64 = cp"
proof -
  have a: "cp div 262144 = cp div 4096 div 64"
    using div_mult2_eq [of cp 4096 64] by simp
  have "cp div 4096 div 64 * 262144 + cp div 4096 mod 64 * 4096 = cp div 4096 * 4096"
    using shift64 [of "cp div 4096" 4096] by simp
  then show ?thesis
    unfolding a using three_octets_value [of cp] by simp
qed

lemma utf8_decode_1:
  "cp < 0x80 \<Longrightarrow>
     utf8_decode (utf8_octets cp @ rest) = map_option ((#) cp) (utf8_decode rest)"
  by (simp add: utf8_octets_def)

lemma utf8_decode_2:
  assumes "0x80 \<le> cp" "cp < 0x800"
  shows "utf8_decode (utf8_octets cp @ rest) = map_option ((#) cp) (utf8_decode rest)"
proof -
  define b0 b1 where "b0 = 0xC0 + cp div 64" and "b1 = 0x80 + cp mod 64"
  have octets: "utf8_octets cp = [b0, b1]"
    using assms by (simp add: utf8_octets_def b0_def b1_def)
  have "cp div 64 < 32"
    using assms by simp
  then have lead: "\<not> b0 < 0x80" "0xC0 \<le> b0" "b0 < 0xE0"
    by (simp_all add: b0_def)
  have cont: "isContinuation b1"
    by (simp add: isContinuation_def b1_def)
  have "(b0 - 0xC0) * 64 + (b1 - 0x80) = cp div 64 * 64 + cp mod 64"
    by (simp add: b0_def b1_def)
  then have v: "(b0 - 0xC0) * 64 + (b1 - 0x80) = cp"
    by simp
  show ?thesis
    unfolding octets using lead cont assms by (simp add: Let_def v)
qed

lemma utf8_decode_3:
  assumes "0x800 \<le> cp" "cp < 0x10000" "\<not> (0xD800 \<le> cp \<and> cp \<le> 0xDFFF)"
  shows "utf8_decode (utf8_octets cp @ rest) = map_option ((#) cp) (utf8_decode rest)"
proof -
  define b0 b1 b2 where "b0 = 0xE0 + cp div 4096" and "b1 = 0x80 + cp div 64 mod 64"
    and "b2 = 0x80 + cp mod 64"
  have octets: "utf8_octets cp = [b0, b1, b2]"
    using assms by (simp add: utf8_octets_def b0_def b1_def b2_def)
  have "cp div 4096 < 16"
    using assms by simp
  then have lead: "\<not> b0 < 0x80" "\<not> (0xC0 \<le> b0 \<and> b0 < 0xE0)" "0xE0 \<le> b0" "b0 < 0xF0"
    by (simp_all add: b0_def)
  have cont: "isContinuation b1" "isContinuation b2"
    by (simp_all add: isContinuation_def b1_def b2_def)
  have "(b0 - 0xE0) * 4096 + (b1 - 0x80) * 64 + (b2 - 0x80)
          = cp div 4096 * 4096 + cp div 64 mod 64 * 64 + cp mod 64"
    by (simp add: b0_def b1_def b2_def)
  then have v: "(b0 - 0xE0) * 4096 + (b1 - 0x80) * 64 + (b2 - 0x80) = cp"
    by (simp only: three_octets_value)
  show ?thesis
    unfolding octets using lead cont assms by (simp add: Let_def v)
qed

lemma utf8_decode_4:
  assumes "0x10000 \<le> cp" "cp < 0x110000"
  shows "utf8_decode (utf8_octets cp @ rest) = map_option ((#) cp) (utf8_decode rest)"
proof -
  define b0 b1 b2 b3 where "b0 = 0xF0 + cp div 262144" and "b1 = 0x80 + cp div 4096 mod 64"
    and "b2 = 0x80 + cp div 64 mod 64" and "b3 = 0x80 + cp mod 64"
  have octets: "utf8_octets cp = [b0, b1, b2, b3]"
    using assms by (simp add: utf8_octets_def b0_def b1_def b2_def b3_def)
  have "cp div 262144 < 5"
    using assms by simp
  then have lead: "\<not> b0 < 0x80" "\<not> (0xC0 \<le> b0 \<and> b0 < 0xE0)" "\<not> (0xE0 \<le> b0 \<and> b0 < 0xF0)"
    "0xF0 \<le> b0" "b0 < 0xF8"
    by (simp_all add: b0_def)
  have cont: "isContinuation b1" "isContinuation b2" "isContinuation b3"
    by (simp_all add: isContinuation_def b1_def b2_def b3_def)
  have "(b0 - 0xF0) * 262144 + (b1 - 0x80) * 4096 + (b2 - 0x80) * 64 + (b3 - 0x80)
          = cp div 262144 * 262144 + cp div 4096 mod 64 * 4096 + cp div 64 mod 64 * 64
            + cp mod 64"
    by (simp add: b0_def b1_def b2_def b3_def)
  then have v: "(b0 - 0xF0) * 262144 + (b1 - 0x80) * 4096 + (b2 - 0x80) * 64 + (b3 - 0x80) = cp"
    by (simp only: four_octets_value)
  show ?thesis
    unfolding octets using lead cont assms by (simp add: Let_def v)
qed

lemma utf8_decode_octets:
  "isScalarValue cp \<Longrightarrow>
     utf8_decode (utf8_octets cp @ rest) = map_option ((#) cp) (utf8_decode rest)"
  unfolding isScalarValue_def
  using utf8_decode_1 [of cp rest] utf8_decode_2 [of cp rest] utf8_decode_3 [of cp rest]
    utf8_decode_4 [of cp rest]
  by linarith

lemma utf8_decode_concat:
  "list_all isScalarValue cps \<Longrightarrow> utf8_decode (concat (map utf8_octets cps)) = Some cps"
  by (induction cps) (simp_all add: utf8_decode_octets)

lemma utf8_octets_bytes: "cp < 0x110000 \<Longrightarrow> list_all (\<lambda>b. b < 256) (utf8_octets cp)"
proof -
  assume a: "cp < 0x110000"
  have m: "cp mod 64 < 64" "cp div 64 mod 64 < 64" "cp div 4096 mod 64 < 64"
    by simp_all
  have d: "cp < 0x800 \<Longrightarrow> cp div 64 < 32" "cp < 0x10000 \<Longrightarrow> cp div 4096 < 16"
    "cp div 262144 < 5"
    using a by simp_all
  show ?thesis
    using m d by (auto simp: utf8_octets_def)
qed

section \<open>Escaping and unescaping\<close>

lemma unat_hexDigit:
  "d < 16 \<Longrightarrow> a < 256 \<Longrightarrow> unat (hexDigit a d) = (if d < 10 then 0x30 + d else a + (d - 10))"
  unfolding hexDigit_def by (rule unat_unit) auto

lemma digitValue_unat:
  "digitValue c =
     (let n = unat c in
      if 0x30 \<le> n \<and> n \<le> 0x39 then Some (n - 0x30)
      else if 0x61 \<le> n \<and> n \<le> 0x66 then Some (n - 0x61 + 10)
      else if 0x41 \<le> n \<and> n \<le> 0x46 then Some (n - 0x41 + 10)
      else None)"
  by (simp add: digitValue_def word_le_nat_alt Let_def)

lemma digitValue_hexDigit: "d < 16 \<Longrightarrow> digitValue (hexDigit 0x41 d) = Some d"
  unfolding digitValue_unat Let_def by (simp add: unat_hexDigit)

lemma isHexDigit_hexDigit: "d < 16 \<Longrightarrow> isHexDigit (hexDigit 0x41 d)"
  by (simp add: isHexDigit_def isRadixDigit_def digitValue_hexDigit)

lemma hexDigit_not_u: "d < 16 \<Longrightarrow> hexDigit 0x41 d \<noteq> 0x75"
proof
  assume d: "d < 16" and "hexDigit 0x41 d = 0x75"
  then have "unat (hexDigit 0x41 d) = unat (0x75 :: code_unit)"
    by simp
  with d show False
    by (simp add: unat_hexDigit split: if_splits)
qed

lemma unescape_percentEncode:
  assumes "b < 256"
  shows "unescape (percentEncode b @ rest) = of_nat b # unescape rest"
proof -
  define h1 h2 where "h1 = hexDigit 0x41 (b div 16)" and "h2 = hexDigit 0x41 (b mod 16)"
  have d: "b div 16 < 16" "b mod 16 < 16"
    using assms by simp_all
  have hex: "isHexDigit h1" "isHexDigit h2" and nu: "h1 \<noteq> 0x75"
    and v: "digitValue h1 = Some (b div 16)" "digitValue h2 = Some (b mod 16)"
    using d by (simp_all add: h1_def h2_def isHexDigit_hexDigit hexDigit_not_u digitValue_hexDigit)
  have "digitsValue 16 [h1, h2] = b div 16 * 16 + b mod 16"
    by (simp add: digitsValue_def v)
  then have val: "digitsValue 16 [h1, h2] = b"
    by simp
  have "unescape (0x25 # h1 # h2 # rest) = of_nat b # unescape rest"
    using hex nu val by (simp add: isUnicodeEscape_def isHexEscape_def)
  then show ?thesis
    by (simp add: percentEncode_def h1_def h2_def)
qed

lemma unescape_escapes:
  "list_all (\<lambda>b. b < 256) bs \<Longrightarrow>
     unescape (concat (map percentEncode bs) @ rest) = map of_nat bs @ unescape rest"
  by (induction bs) (simp_all add: unescape_percentEncode)

lemma uriUnescaped_not_percent: "uriUnescaped u \<Longrightarrow> u \<noteq> 0x25"
  by (auto simp: uriUnescaped_def Let_def)

lemma uriUnescaped_ascii: "uriUnescaped u \<Longrightarrow> unat u < 0x80"
  by (auto simp: uriUnescaped_def Let_def)

lemma surrogate_unat:
  "isLeadingSurrogate u \<longleftrightarrow> 0xD800 \<le> unat u \<and> unat u \<le> 0xDBFF"
  "isTrailingSurrogate u \<longleftrightarrow> 0xDC00 \<le> unat u \<and> unat u \<le> 0xDFFF"
  by (simp_all add: isLeadingSurrogate_def isTrailingSurrogate_def word_le_nat_alt)

lemma unat_unit_bound: "unat (u :: code_unit) < 65536"
  using unsigned_less [of u, where 'a = nat] by simp

lemma pair_code_point:
  assumes "isLeadingSurrogate u" "isTrailingSurrogate v"
  shows "0x10000 \<le> UTF16SurrogatePairToCodePoint u v"
    and "UTF16SurrogatePairToCodePoint u v < 0x110000"
    and "UTF16EncodeCodePoint (UTF16SurrogatePairToCodePoint u v) = [u, v]"
proof -
  define h l where "h = unat u - 0xD800" and "l = unat v - 0xDC00"
  have h: "h < 0x400" "0xD800 + h = unat u" and l: "l < 0x400" "0xDC00 + l = unat v"
    using assms by (auto simp: surrogate_unat h_def l_def)
  have cp: "UTF16SurrogatePairToCodePoint u v = h * 0x400 + l + 0x10000"
    by (simp add: UTF16SurrogatePairToCodePoint_def h_def l_def)
  show "0x10000 \<le> UTF16SurrogatePairToCodePoint u v"
    unfolding cp by simp
  show "UTF16SurrogatePairToCodePoint u v < 0x110000"
    unfolding cp using h(1) l(1) by linarith
  have "(h * 0x400 + l) div 0x400 = h" "(h * 0x400 + l) mod 0x400 = l"
    using l(1) by simp_all
  then have "UTF16EncodeCodePoint (h * 0x400 + l + 0x10000)
               = [of_nat (0xD800 + h), of_nat (0xDC00 + l)]"
    by (simp add: UTF16EncodeCodePoint_def)
  then show "UTF16EncodeCodePoint (UTF16SurrogatePairToCodePoint u v) = [u, v]"
    unfolding cp h(2) l(2) by simp
qed

lemma unit_code_point: "UTF16EncodeCodePoint (unat u) = [u]"
  using unat_unit_bound [of u] by (simp add: UTF16EncodeCodePoint_def)

lemma UTF16_of_code_points: "concat (map UTF16EncodeCodePoint (StringToCodePoints s)) = s"
  by (induction s rule: StringToCodePoints.induct)
    (auto simp: unit_code_point pair_code_point split: list.splits)

lemma unit_scalar:
  "\<not> isLeadingSurrogate u \<Longrightarrow> \<not> isTrailingSurrogate u \<Longrightarrow> isScalarValue (unat u)"
  using unat_unit_bound [of u] by (auto simp: isScalarValue_def surrogate_unat)

lemma pair_scalar:
  "isLeadingSurrogate u \<Longrightarrow> isTrailingSurrogate v \<Longrightarrow>
     isScalarValue (UTF16SurrogatePairToCodePoint u v)"
  using pair_code_point(1,2) [of u v] by (simp add: isScalarValue_def)

lemma uriUnescaped_not_surrogate:
  "uriUnescaped u \<Longrightarrow> \<not> isLeadingSurrogate u \<and> \<not> isTrailingSurrogate u"
  using uriUnescaped_ascii [of u] by (auto simp: surrogate_unat)

lemma encodable_scalars:
  "encodeURIComponent s = Some e \<Longrightarrow> list_all isScalarValue (StringToCodePoints s)"
proof (induction s arbitrary: e rule: encodeURIComponent.induct)
  case 1
  then show ?case by simp
next
  case (2 u rest)
  show ?case
  proof (cases "isLeadingSurrogate u")
    case True
    then have nu: "\<not> uriUnescaped u"
      using uriUnescaped_not_surrogate by blast
    with True "2.prems" obtain v rest' e' where rest: "rest = v # rest'"
      and v: "isTrailingSurrogate v" and e': "encodeURIComponent rest' = Some e'"
      by (auto split: list.splits if_splits)
    from "2.IH"(2) [OF nu True rest v e'] True v rest show ?thesis
      by (simp add: pair_scalar)
  next
    case False
    show ?thesis
    proof (cases "uriUnescaped u")
      case True
      with "2.prems" obtain e' where "encodeURIComponent rest = Some e'"
        by auto
      from "2.IH"(1) [OF True this] False True show ?thesis
        using uriUnescaped_not_surrogate [OF True] by (simp add: unit_scalar)
    next
      case nu: False
      with False "2.prems" have nt: "\<not> isTrailingSurrogate u"
        by (auto split: if_splits)
      with nu False "2.prems" obtain e' where "encodeURIComponent rest = Some e'"
        by auto
      from "2.IH"(3) [OF nu False nt this] False nt show ?thesis
        by (simp add: unit_scalar)
    qed
  qed
qed

lemma scalar_bytes: "isScalarValue cp \<Longrightarrow> list_all (\<lambda>b. b < 256) (utf8_octets cp)"
  by (simp add: isScalarValue_def utf8_octets_bytes)

lemma unescape_encodeURIComponent:
  "encodeURIComponent s = Some e \<Longrightarrow> unescape e = map of_nat (UTF8 s)"
proof (induction s arbitrary: e rule: encodeURIComponent.induct)
  case 1
  then show ?case by (simp add: UTF8_def)
next
  case (2 u rest)
  show ?case
  proof (cases "isLeadingSurrogate u")
    case True
    then have nu: "\<not> uriUnescaped u"
      using uriUnescaped_not_surrogate by blast
    with True "2.prems" obtain v rest' e' where rest: "rest = v # rest'"
      and v: "isTrailingSurrogate v" and e': "encodeURIComponent rest' = Some e'"
      and e: "e = concat (map percentEncode (utf8_octets (UTF16SurrogatePairToCodePoint u v))) @ e'"
      by (auto split: list.splits if_splits)
    have "unescape e' = map of_nat (UTF8 rest')"
      by (rule "2.IH"(2) [OF nu True rest v e'])
    then show ?thesis
      unfolding e using True v rest
      by (simp add: UTF8_def unescape_escapes scalar_bytes pair_scalar)
  next
    case False
    show ?thesis
    proof (cases "uriUnescaped u")
      case True
      with "2.prems" obtain e' where e': "encodeURIComponent rest = Some e'" and e: "e = u # e'"
        by auto
      have "unescape e' = map of_nat (UTF8 rest)"
        by (rule "2.IH"(1) [OF True e'])
      moreover have "utf8_octets (unat u) = [unat u]"
        using uriUnescaped_ascii [OF True] by (simp add: utf8_octets_def)
      ultimately show ?thesis
        unfolding e using False uriUnescaped_not_percent [OF True]
        by (simp add: UTF8_def)
    next
      case nu: False
      with False "2.prems" have nt: "\<not> isTrailingSurrogate u"
        by (auto split: if_splits)
      with nu False "2.prems" obtain e' where e': "encodeURIComponent rest = Some e'"
        and e: "e = concat (map percentEncode (utf8_octets (unat u))) @ e'"
        by auto
      have "unescape e' = map of_nat (UTF8 rest)"
        by (rule "2.IH"(3) [OF nu False nt e'])
      then show ?thesis
        unfolding e using False nt
        by (simp add: UTF8_def unescape_escapes scalar_bytes unit_scalar)
    qed
  qed
qed

lemma btoa_octets:
  assumes "list_all (\<lambda>b. b < 256) bs"
  shows "btoa (map of_nat bs) = Some (base64 bs)"
proof -
  have "unat (of_nat b :: code_unit) = b" if "b < 256" for b
    using that by (simp add: unat_unit)
  then have u: "list_all (\<lambda>b. unat (of_nat b :: code_unit) = b \<and> b < 256) bs"
    using assms by (simp add: list_all_iff)
  then have "map unat (map of_nat bs :: jsstring) = bs"
    by (induction bs) simp_all
  moreover from u have "list_all (\<lambda>u. u \<le> 0xFF) (map of_nat bs :: jsstring)"
    by (induction bs) (simp_all add: word_le_nat_alt)
  ultimately show ?thesis
    by (simp add: btoa_def)
qed

lemma scalars_bytes:
  "list_all isScalarValue cps \<Longrightarrow> list_all (\<lambda>b. b < 256) (concat (map utf8_octets cps))"
  by (induction cps) (simp_all add: scalar_bytes)

lemma UTF8_bytes: "encodeURIComponent s = Some e \<Longrightarrow> list_all (\<lambda>b. b < 256) (UTF8 s)"
  unfolding UTF8_def by (rule scalars_bytes) (rule encodable_scalars)

lemma decode_UTF8:
  assumes "encodeURIComponent s = Some e"
  shows "decode (base64 (UTF8 s)) = Some s"
proof -
  have "base64_decode (base64 (UTF8 s)) = Some (UTF8 s)"
    by (rule base64_decode_base64) (rule UTF8_bytes [OF assms])
  moreover have "utf8_decode (UTF8 s) = Some (StringToCodePoints s)"
    unfolding UTF8_def by (rule utf8_decode_concat) (rule encodable_scalars [OF assms])
  ultimately show ?thesis
    by (simp add: decode_def UTF16_of_code_points)
qed

lemma payload_of_text:
  assumes "encodeURIComponent s = Some e"
  shows "btoa (unescape e) = Some (base64 (UTF8 s))"
  unfolding unescape_encodeURIComponent [OF assms]
  by (rule btoa_octets) (rule UTF8_bytes [OF assms])

lemma encodeURIComponent_append:
  "encodeURIComponent a = Some ea \<Longrightarrow>
     encodeURIComponent (a @ b) = map_option ((@) ea) (encodeURIComponent b)"
proof (induction a arbitrary: ea rule: encodeURIComponent.induct)
  case 1
  then show ?case by (simp add: option.map_ident)
next
  case (2 u rest)
  show ?case
  proof (cases "uriUnescaped u")
    case True
    with "2.prems" obtain e' where e': "encodeURIComponent rest = Some e'" and ea: "ea = u # e'"
      by auto
    from "2.IH"(1) [OF True e'] True show ?thesis
      by (simp add: ea option.map_comp comp_def)
  next
    case nu: False
    show ?thesis
    proof (cases "isLeadingSurrogate u")
      case True
      with nu "2.prems" obtain v rest' e' where rest: "rest = v # rest'"
        and v: "isTrailingSurrogate v" and e': "encodeURIComponent rest' = Some e'"
        and ea: "ea = concat (map percentEncode (utf8_octets (UTF16SurrogatePairToCodePoint u v))) @ e'"
        by (auto split: list.splits if_splits)
      from "2.IH"(2) [OF nu True rest v e'] nu True v show ?thesis
        by (simp add: rest ea option.map_comp comp_def)
    next
      case False
      with nu "2.prems" have nt: "\<not> isTrailingSurrogate u"
        by (auto split: if_splits)
      with nu False "2.prems" obtain e' where e': "encodeURIComponent rest = Some e'"
        and ea: "ea = concat (map percentEncode (utf8_octets (unat u))) @ e'"
        by auto
      from "2.IH"(3) [OF nu False nt e'] nu False nt show ?thesis
        by (simp add: ea option.map_comp comp_def)
    qed
  qed
qed

lemma encodable_append: "encodable a \<Longrightarrow> encodable b \<Longrightarrow> encodable (a @ b)"
  unfolding encodable_def using encodeURIComponent_append [of a _ b] by auto

lemma encodable_Nil: "encodable []"
  by (simp add: encodable_def)

lemma encodable_unit:
  "\<not> isLeadingSurrogate u \<Longrightarrow> \<not> isTrailingSurrogate u \<Longrightarrow> encodable [u]"
  by (simp add: encodable_def)

lemma encodable_pair: "isLeadingSurrogate u \<Longrightarrow> isTrailingSurrogate v \<Longrightarrow> encodable [u, v]"
  using uriUnescaped_not_surrogate [of u] by (auto simp: encodable_def)

lemma encodable_Cons:
  "\<not> isLeadingSurrogate u \<Longrightarrow> \<not> isTrailingSurrogate u \<Longrightarrow> encodable s \<Longrightarrow> encodable (u # s)"
  using encodable_append [OF encodable_unit, of u s] by simp

lemma encodable_units:
  "list_all (\<lambda>u. unat u < 0xD800) s \<Longrightarrow> encodable s"
  by (induction s) (simp_all add: encodable_Nil encodable_Cons surrogate_unat)

section \<open>The serialization can always be encoded\<close>

lemma low_units_append:
  "list_all (\<lambda>u. unat u < 0xD800) a \<Longrightarrow> encodable b \<Longrightarrow> encodable (a @ b)"
  by (rule encodable_append) (rule encodable_units)

lemma hexDigit_low: "d < 16 \<Longrightarrow> unat (hexDigit 0x61 d) < 0x80"
  by (simp add: unat_hexDigit)

lemma UnicodeEscape_low: "list_all (\<lambda>u. unat u < 0xD800) (UnicodeEscape u)"
proof -
  have "unat u div 4096 < 16"
    using unat_unit_bound [of u] by simp
  then have "unat (hexDigit 0x61 (unat u div 4096)) < 0x80"
    "unat (hexDigit 0x61 (unat u div 256 mod 16)) < 0x80"
    "unat (hexDigit 0x61 (unat u div 16 mod 16)) < 0x80"
    "unat (hexDigit 0x61 (unat u mod 16)) < 0x80"
    by (simp_all add: hexDigit_low)
  then show ?thesis
    unfolding UnicodeEscape_def Let_def by simp
qed

lemma encodable_quoteChars: "encodable (quoteChars s)"
proof (induction "length s" arbitrary: s rule: less_induct)
  case less
  show ?case
  proof (cases s)
    case Nil
    then show ?thesis by (simp add: encodable_Nil)
  next
    case (Cons u rest)
    have tail: "encodable (quoteChars rest)"
      using less Cons by simp
    have tail2: "encodable (quoteChars r)" if "rest = v # r" for v r
      using less Cons that by simp
    have short: "encodable (0x5C # c # quoteChars rest)" if "unat c < 0xD800" for c
      using low_units_append [of "[0x5C, c]", OF _ tail] that by simp
    have escape: "encodable (UnicodeEscape u @ quoteChars rest)"
      using tail by (intro low_units_append UnicodeEscape_low)
    have escape_next: "encodable (UnicodeEscape u @ quoteChars (v # r))" if "rest = v # r" for v r
      using escape unfolding that .
    have escape_last: "encodable (UnicodeEscape u)"
      by (intro encodable_units UnicodeEscape_low)
    have pair: "encodable (u # v # quoteChars r)"
      if "isLeadingSurrogate u" "rest = v # r" "isTrailingSurrogate v" for v r
      using encodable_append [OF encodable_pair tail2, of u v v r] that by simp
    have plain: "encodable (u # quoteChars rest)"
      if "\<not> isLeadingSurrogate u" "\<not> isTrailingSurrogate u"
      using that tail by (rule encodable_Cons)
    show ?thesis
      unfolding Cons quoteChars.simps
      by (simp del: quoteChars.simps add: short escape escape_next escape_last pair plain split: list.split)
  qed
qed

lemma digit_low: "d < 10 \<Longrightarrow> unat (of_nat (0x30 + d) :: code_unit) < 0xD800"
proof -
  assume d: "d < 10"
  then have "unat (of_nat (0x30 + d) :: code_unit) = 0x30 + d"
    by (intro unat_unit) simp
  with d show ?thesis
    by simp
qed

lemma decimalDigits_low: "list_all (\<lambda>u. unat u < 0xD800) (decimalDigits n)"
proof (induction n rule: decimalDigits.induct)
  case (1 n)
  have "n mod 10 < 10"
    by simp
  from digit_low [OF this] have last: "unat (of_nat (0x30 + n mod 10) :: code_unit) < 0xD800" .
  show ?case
  proof (cases "n < 10")
    case True
    from digit_low [OF this] show ?thesis
      by (subst decimalDigits.simps) (simp add: True)
  next
    case False
    with 1 last show ?thesis
      by (subst decimalDigits.simps) simp
  qed
qed

lemma floor_part:
  fixes x :: rat
  shows "0 \<le> x - of_int \<lfloor>x\<rfloor>" and "x - of_int \<lfloor>x\<rfloor> < 1"
  using frac_ge_0 [of x] frac_lt_1 [of x] by (simp_all add: frac_def)

lemma fraction_digit:
  fixes f :: rat
  assumes "0 \<le> f" "f < 1"
  shows "nat \<lfloor>f * 10\<rfloor> < 10"
proof -
  have "f * 10 < 10"
    using assms by simp
  then have "\<lfloor>f * 10\<rfloor> < 10"
    by (simp add: floor_less_iff)
  moreover have "0 \<le> \<lfloor>f * 10\<rfloor>"
    using assms by simp
  ultimately show "nat \<lfloor>f * 10\<rfloor> < 10"
    by (simp add: nat_less_iff)
qed

lemma fractionDigits_low:
  "0 \<le> f \<Longrightarrow> f < 1 \<Longrightarrow> list_all (\<lambda>u. unat u < 0xD800) (fractionDigits k f)"
proof (induction k arbitrary: f)
  case 0
  then show ?case by simp
next
  case (Suc k)
  have first: "unat (of_nat (0x30 + nat \<lfloor>f * 10\<rfloor>) :: code_unit) < 0xD800"
    by (rule digit_low) (rule fraction_digit [OF Suc.prems])
  have others: "list_all (\<lambda>u. unat u < 0xD800)
                   (fractionDigits k (f * 10 - of_int \<lfloor>f * 10\<rfloor>))"
    by (rule Suc.IH) (rule floor_part)+
  show ?case
  proof (cases "f = 0")
    case True
    then show ?thesis
      by (simp only: fractionDigits.simps if_True list.pred_inject simp_thms)
  next
    case False
    then show ?thesis
      using first others by (simp only: fractionDigits.simps if_False list.pred_inject simp_thms)
  qed
qed

lemma Number_toString_low: "list_all (\<lambda>u. unat u < 0xD800) (Number_toString q)"
proof -
  have sign: "list_all (\<lambda>u. unat u < 0xD800) (if q < 0 then [0x2D] else [] :: jsstring)"
    by simp
  have fraction: "list_all (\<lambda>u. unat u < 0xD800)
      (if \<bar>q\<bar> - of_int \<lfloor>\<bar>q\<bar>\<rfloor> = 0 then []
       else 0x2E # fractionDigits 17 (\<bar>q\<bar> - of_int \<lfloor>\<bar>q\<bar>\<rfloor>))"
  proof (cases "\<bar>q\<bar> - of_int \<lfloor>\<bar>q\<bar>\<rfloor> = 0")
    case True
    then show ?thesis
      by (simp only: if_True list.pred_inject simp_thms)
  next
    case False
    have "list_all (\<lambda>u. unat u < 0xD800) (fractionDigits 17 (\<bar>q\<bar> - of_int \<lfloor>\<bar>q\<bar>\<rfloor>))"
      by (rule fractionDigits_low) (rule floor_part)+
    moreover have "unat (0x2E :: code_unit) < 0xD800"
      by simp
    ultimately show ?thesis
      using False by (simp only: if_False list.pred_inject simp_thms)
  qed
  show ?thesis
    unfolding Number_toString_def Let_def
    using sign decimalDigits_low fraction by (simp only: list_all_append simp_thms)
qed

lemma encodable_QuoteJSONString: "encodable (QuoteJSONString s)"
  unfolding QuoteJSONString_def
  by (intro low_units_append encodable_append encodable_quoteChars encodable_units) simp_all

lemma encodable_property: "encodable (SerializeJSONProperty v)"
proof (cases v)
  case (JStr s)
  then show ?thesis
    by (simp add: SerializeJSONProperty_def encodable_QuoteJSONString)
next
  case (JNum n)
  have "list_all (\<lambda>u. unat u < 0xD800) (js ''null'')"
    by (simp add: js_def)
  with JNum show ?thesis
    by (cases n) (simp_all add: SerializeJSONProperty_def encodable_units Number_toString_low)
qed

lemma encodable_member:
  "encodable (QuoteJSONString (js (key_name k)) @ [0x3A] @ SerializeJSONProperty v)"
  by (intro low_units_append encodable_append encodable_QuoteJSONString encodable_property) simp

lemma encodable_joinWith:
  "encodable sep \<Longrightarrow> list_all encodable xs \<Longrightarrow> encodable (joinWith sep xs)"
  by (induction sep xs rule: joinWith.induct) (simp_all add: encodable_Nil encodable_append)

lemma encodable_members:
  "list_all encodable
     (map (\<lambda>(k, v). QuoteJSONString (js (key_name k)) @ [0x3A] @ SerializeJSONProperty v) json)"
proof (induction json)
  case Nil
  show ?case by simp
next
  case (Cons m json)
  obtain k v where m: "m = (k, v)"
    by (cases m)
  from Cons encodable_member [of k v] show ?case
    unfolding m by (simp del: append.simps)
qed

lemma encodable_JSON_stringify: "encodable (JSON_stringify json)"
proof -
  let ?members = "joinWith [0x2C]
          (map (\<lambda>(k, v). QuoteJSONString (js (key_name k)) @ [0x3A] @ SerializeJSONProperty v) json)"
  have "encodable [0x2C]"
    by (rule encodable_units) simp
  then have members: "encodable ?members"
    using encodable_members by (rule encodable_joinWith)
  have closes: "encodable [0x7D]"
    by (rule encodable_units) simp
  have opens: "encodable [0x7B]"
    by (rule encodable_units) simp
  have "encodable ([0x7B] @ ?members @ [0x7D])"
    by (rule encodable_append [OF opens encodable_append [OF members closes]])
  then show ?thesis
    by (simp only: JSON_stringify_def)
qed

lemma toBase64_Browser: "toBase64 Browser json = Some (base64 (UTF8 (JSON_stringify json)))"
proof -
  from encodable_JSON_stringify [of json] obtain e
    where e: "encodeURIComponent (JSON_stringify json) = Some e"
    by (auto simp: encodable_def)
  from payload_of_text [OF e] e show ?thesis
    by (simp add: toBase64_def window_undefined_def)
qed

lemma decode_payload: "decode (base64 (UTF8 (JSON_stringify json))) = Some (JSON_stringify json)"
proof -
  from encodable_JSON_stringify [of json] obtain e
    where e: "encodeURIComponent (JSON_stringify json) = Some e"
    by (auto simp: encodable_def)
  then show ?thesis
    by (rule decode_UTF8)
qed

lemma b64char_alphabet: "isBase64Char (b64char i)"
  unfolding isBase64Char_def Let_def unat_b64char by auto

lemma pad_alphabet: "isBase64Char 0x3D"
  by (simp add: isBase64Char_def)

lemma base64_alphabet: "list_all isBase64Char (base64 bs)"
  by (induction bs rule: base64.induct) (simp_all add: b64char_alphabet pad_alphabet)

lemma alphabet_no_break: "isBase64Char c \<Longrightarrow> c \<noteq> 0x0A \<and> c \<noteq> 0x0D \<and> c \<noteq> 0x20 \<and> c \<noteq> 0x27"
  by (auto simp: isBase64Char_def Let_def)

lemma toBase64_alphabet: "\<exists>p. toBase64 env json = Some p \<and> list_all isBase64Char p"
proof (cases env)
  case Server
  then show ?thesis
    by (simp add: toBase64_def window_undefined_def)
next
  case Browser
  then show ?thesis
    by (simp add: toBase64_Browser base64_alphabet)
qed

section \<open>The payload is never empty in a browser\<close>

lemma base64_nonempty: "bs \<noteq> [] \<Longrightarrow> base64 bs \<noteq> []"
  by (cases bs rule: base64.cases) simp_all

lemma btoa_nonempty: "s \<noteq> [] \<Longrightarrow> btoa s \<noteq> Some []"
  by (auto simp: btoa_def base64_nonempty split: if_splits)

lemma unescape_nonempty: "e \<noteq> [] \<Longrightarrow> unescape e \<noteq> []"
  by (cases e) simp_all

lemma percentEncode_nonempty: "percentEncode b \<noteq> []"
  by (simp add: percentEncode_def)

lemma utf8_octets_nonempty: "utf8_octets cp \<noteq> []"
  by (simp add: utf8_octets_def)

lemma encodeURIComponent_nonempty: "s \<noteq> [] \<Longrightarrow> encodeURIComponent s \<noteq> Some []"
proof (cases s)
  case Nil
  assume "s \<noteq> []"
  with Nil show ?thesis by simp
next
  case (Cons u rest)
  have escapes: "concat (map percentEncode (utf8_octets cp)) \<noteq> []" for cp
    by (cases "utf8_octets cp") (simp_all add: utf8_octets_nonempty percentEncode_nonempty)
  show ?thesis
    unfolding Cons using escapes by (auto split: list.splits)
qed

lemma JSON_stringify_nonempty: "JSON_stringify json \<noteq> []"
  by (simp add: JSON_stringify_def)

lemma toBase64_Browser_nonempty: "toBase64 Browser json \<noteq> Some []"
proof
  assume "toBase64 Browser json = Some []"
  then obtain e where e: "encodeURIComponent (JSON_stringify json) = Some e"
    and b: "btoa (unescape e) = Some []"
    by (auto simp: toBase64_def window_undefined_def split: bind_splits)
  from e have "e \<noteq> []"
    using encodeURIComponent_nonempty [OF JSON_stringify_nonempty, of json] by auto
  then have "unescape e \<noteq> []"
    by (rule unescape_nonempty)
  then show False
    using b btoa_nonempty by blast
qed

section \<open>The claims\<close>

text \<open>
  C10. Where \<^verbatim>\<open>window\<close> is undefined, \<^verbatim>\<open>toBase64\<close> returns the empty string for every
  input: the payload is empty for every form state, and the command of a valid configuration
  is the executor's command with an empty quoted argument. In a browser \<^verbatim>\<open>toBase64\<close> never
  returns the empty string, so a payload that is not empty comes from a browser only.
\<close>

theorem blank_when_window_undefined:
  "toBase64 Server json = Some []
   \<and> b64 Server form = Some []
   \<and> pythonCmd Server form =
       (case parsed form of
          Inr _ \<Rightarrow> Some (js ''python mt5_connector/connector.py --config-b64 '' @ [0x27, 0x27])
        | Inl _ \<Rightarrow> Some [])
   \<and> toBase64 Browser json \<noteq> Some []"
proof -
  have t: "toBase64 Server j = Some []" for j
    by (simp add: toBase64_def window_undefined_def)
  have b: "b64 Server form = Some []"
    by (simp add: b64_def t split: sum.splits)
  have p: "pythonCmd Server form =
       (case parsed form of
          Inr _ \<Rightarrow> Some (js ''python mt5_connector/connector.py --config-b64 '' @ [0x27, 0x27])
        | Inl _ \<Rightarrow> Some [])"
    by (simp add: pythonCmd_def b split: sum.splits)
  show ?thesis
    using t b p toBase64_Browser_nonempty by blast
qed

text \<open>
  C2. Failure gating: when validation fails, the payload and the command are both the empty
  string, in either environment; a payload or a command that is not empty is produced only
  when the whole form state validates.
\<close>

theorem failure_gating:
  "(isl (parsed form) \<longrightarrow> b64 env form = Some [] \<and> pythonCmd env form = Some [])
   \<and> (b64 env form \<noteq> Some [] \<or> pythonCmd env form \<noteq> Some [] \<longrightarrow> \<not> isl (parsed form))"
  by (auto simp: b64_def pythonCmd_def split: sum.splits)

theorem failure_gating_witness:
  "isl (parsed (handleChange initial_form timeframe (js ''M16'')))
   \<and> b64 Browser (handleChange initial_form timeframe (js ''M16'')) = Some []
   \<and> pythonCmd Browser (handleChange initial_form timeframe (js ''M16'')) = Some []
   \<and> pythonCmd Server initial_form \<noteq> Some []
   \<and> \<not> isl (parsed initial_form)"
proof -
  have f: "isl (parsed (handleChange initial_form timeframe (js ''M16'')))"
    by code_simp
  have v: "\<not> isl (parsed initial_form)"
    by code_simp
  have c: "pythonCmd Server initial_form \<noteq> Some []"
    using v by (cases "parsed initial_form")
      (simp_all add: pythonCmd_def b64_def toBase64_def window_undefined_def)
  show ?thesis
    using f v c failure_gating [of "handleChange initial_form timeframe (js ''M16'')" Browser]
      failure_gating [of initial_form Server]
    by blast
qed

text \<open>
  C3. Default completeness: validating the empty form state succeeds and returns the
  configuration of the documented defaults; more generally, whenever validation succeeds, a
  field absent from the form state holds the default written in the schema.
\<close>

theorem default_completeness:
  "parsed Map.empty =
     Inr [(symbols, JStr (js ''EURUSD,GBPUSD'')), (timeframe, JStr (js ''M15'')),
          (riskPerTradePct, JNum (Num 1)), (maxOpenPositions, JNum (Num 3)),
          (emaFast, JNum (Num 50)), (emaSlow, JNum (Num 200)), (rsiPeriod, JNum (Num 14)),
          (atrPeriod, JNum (Num 14)), (atrStopMultiplier, JNum (Num 2)),
          (takeProfitRMultiple, JNum (Num 2)), (trailingStopATR, JNum (Num (3 / 2))),
          (dailyLossLimitPct, JNum (Num 5)), (maxDrawdownPct, JNum (Num 20)),
          (liveTrading, JStr (js ''false'')), (magicNumber, JNum (Num 424242))]
   \<and> ((k, t, d) \<in> set StrategySchema \<and> form k = None \<and> parsed form = Inr data
        \<longrightarrow> map_of data k = Some d)"
proof -
  have empty: "parsed Map.empty =
     Inr [(symbols, JStr (js ''EURUSD,GBPUSD'')), (timeframe, JStr (js ''M15'')),
          (riskPerTradePct, JNum (Num 1)), (maxOpenPositions, JNum (Num 3)),
          (emaFast, JNum (Num 50)), (emaSlow, JNum (Num 200)), (rsiPeriod, JNum (Num 14)),
          (atrPeriod, JNum (Num 14)), (atrStopMultiplier, JNum (Num 2)),
          (takeProfitRMultiple, JNum (Num 2)), (trailingStopATR, JNum (Num (3 / 2))),
          (dailyLossLimitPct, JNum (Num 5)), (maxDrawdownPct, JNum (Num 20)),
          (liveTrading, JStr (js ''false'')), (magicNumber, JNum (Num 424242))]"
    by code_simp
  have absent: "map_of data k = Some d"
    if e: "(k, t, d) \<in> set StrategySchema" and k: "form k = None" and p: "parsed form = Inr data"
  proof -
    have "map_of data (fst (k, t, d)) = Some (snd (parse_entry form (k, t, d)))"
      unfolding parsed_data [OF p] by (rule map_of_output [OF distinct_keys e])
    also have "snd (parse_entry form (k, t, d)) = d"
      using k default_output [OF e] by (simp add: parse_entry_def)
    finally show ?thesis by simp
  qed
  from empty absent show ?thesis by blast
qed

theorem default_completeness_witness:
  "(symbols, ZodString, JStr (js ''EURUSD,GBPUSD'')) \<in> set StrategySchema
   \<and> [emaFast \<mapsto> JStr (js ''10'')] symbols = None
   \<and> parsed [emaFast \<mapsto> JStr (js ''10'')] =
       Inr [(symbols, JStr (js ''EURUSD,GBPUSD'')), (timeframe, JStr (js ''M15'')),
          (riskPerTradePct, JNum (Num 1)), (maxOpenPositions, JNum (Num 3)),
          (emaFast, JNum (Num 10)), (emaSlow, JNum (Num 200)), (rsiPeriod, JNum (Num 14)),
          (atrPeriod, JNum (Num 14)), (atrStopMultiplier, JNum (Num 2)),
          (takeProfitRMultiple, JNum (Num 2)), (trailingStopATR, JNum (Num (3 / 2))),
          (dailyLossLimitPct, JNum (Num 5)), (maxDrawdownPct, JNum (Num 20)),
          (liveTrading, JStr (js ''false'')), (magicNumber, JNum (Num 424242))]
   \<and> map_of [(symbols, JStr (js ''EURUSD,GBPUSD'')), (timeframe, JStr (js ''M15'')),
          (riskPerTradePct, JNum (Num 1)), (maxOpenPositions, JNum (Num 3)),
          (emaFast, JNum (Num 10)), (emaSlow, JNum (Num 200)), (rsiPeriod, JNum (Num 14)),
          (atrPeriod, JNum (Num 14)), (atrStopMultiplier, JNum (Num 2)),
          (takeProfitRMultiple, JNum (Num 2)), (trailingStopATR, JNum (Num (3 / 2))),
          (dailyLossLimitPct, JNum (Num 5)), (maxDrawdownPct, JNum (Num 20)),
          (liveTrading, JStr (js ''false'')), (magicNumber, JNum (Num 424242))] symbols
       = Some (JStr (js ''EURUSD,GBPUSD''))"
proof -
  have e: "(symbols, ZodString, JStr (js ''EURUSD,GBPUSD'')) \<in> set StrategySchema"
    by (simp add: StrategySchema_def)
  have k: "[emaFast \<mapsto> JStr (js ''10'')] symbols = None"
    by simp
  have p: "parsed [emaFast \<mapsto> JStr (js ''10'')] =
       Inr [(symbols, JStr (js ''EURUSD,GBPUSD'')), (timeframe, JStr (js ''M15'')),
          (riskPerTradePct, JNum (Num 1)), (maxOpenPositions, JNum (Num 3)),
          (emaFast, JNum (Num 10)), (emaSlow, JNum (Num 200)), (rsiPeriod, JNum (Num 14)),
          (atrPeriod, JNum (Num 14)), (atrStopMultiplier, JNum (Num 2)),
          (takeProfitRMultiple, JNum (Num 2)), (trailingStopATR, JNum (Num (3 / 2))),
          (dailyLossLimitPct, JNum (Num 5)), (maxDrawdownPct, JNum (Num 20)),
          (liveTrading, JStr (js ''false'')), (magicNumber, JNum (Num 424242))]"
    by code_simp
  from default_completeness [of symbols ZodString "JStr (js ''EURUSD,GBPUSD'')"
      "[emaFast \<mapsto> JStr (js ''10'')]"] e k p
  show ?thesis by blast
qed

text \<open>
  C9, as amended. A configuration produced by successful validation holds under \<open>symbols\<close>
  a string, possibly the empty one: the raw string as it was given, or the default when the
  field is absent. The schema makes no check of the string.
\<close>

theorem symbols_is_the_raw_string:
  "parsed form = Inr data \<Longrightarrow>
     (form symbols = None \<and> map_of data symbols = Some (JStr (js ''EURUSD,GBPUSD'')))
     \<or> (\<exists>s. form symbols = Some (JStr s) \<and> map_of data symbols = Some (JStr s))"
proof -
  assume p: "parsed form = Inr data"
  let ?e = "(symbols, ZodString, JStr (js ''EURUSD,GBPUSD''))"
  have out: "map_of data symbols = Some (snd (parse_entry form ?e))"
    using map_of_output [OF distinct_keys symbols_entry, of "\<lambda>e. snd (parse_entry form e)"]
    unfolding parsed_data [OF p] by simp
  have "concat (map (entry_issues form) StrategySchema) = []"
    using p parsed_Inr_iff by blast
  then have "entry_issues form ?e = []"
    using symbols_entry by auto
  then have ok: "fst (parse_entry form ?e) = []"
    by (simp add: entry_issues_def)
  show ?thesis
  proof (cases "form symbols")
    case None
    then show ?thesis using out by (simp add: parse_entry_def parse_type_def)
  next
    case (Some v)
    then show ?thesis using out ok
      by (cases v) (simp_all add: parse_entry_def parse_type_def)
  qed
qed

theorem symbols_is_the_raw_string_witness:
  "parsed (handleChange initial_form symbols []) =
     Inr [(symbols, JStr []), (timeframe, JStr (js ''M15'')),
          (riskPerTradePct, JNum (Num 1)), (maxOpenPositions, JNum (Num 3)),
          (emaFast, JNum (Num 50)), (emaSlow, JNum (Num 200)), (rsiPeriod, JNum (Num 14)),
          (atrPeriod, JNum (Num 14)), (atrStopMultiplier, JNum (Num 2)),
          (takeProfitRMultiple, JNum (Num 2)), (trailingStopATR, JNum (Num (3 / 2))),
          (dailyLossLimitPct, JNum (Num 5)), (maxDrawdownPct, JNum (Num 20)),
          (liveTrading, JStr (js ''false'')), (magicNumber, JNum (Num 424242))]
   \<and> handleChange initial_form symbols [] symbols = Some (JStr [])
   \<and> map_of [(symbols, JStr []), (timeframe, JStr (js ''M15'')),
          (riskPerTradePct, JNum (Num 1)), (maxOpenPositions, JNum (Num 3)),
          (emaFast, JNum (Num 50)), (emaSlow, JNum (Num 200)), (rsiPeriod, JNum (Num 14)),
          (atrPeriod, JNum (Num 14)), (atrStopMultiplier, JNum (Num 2)),
          (takeProfitRMultiple, JNum (Num 2)), (trailingStopATR, JNum (Num (3 / 2))),
          (dailyLossLimitPct, JNum (Num 5)), (maxDrawdownPct, JNum (Num 20)),
          (liveTrading, JStr (js ''false'')), (magicNumber, JNum (Num 424242))] symbols
       = Some (JStr [])"
proof -
  have p: "parsed (handleChange initial_form symbols []) =
     Inr [(symbols, JStr []), (timeframe, JStr (js ''M15'')),
          (riskPerTradePct, JNum (Num 1)), (maxOpenPositions, JNum (Num 3)),
          (emaFast, JNum (Num 50)), (emaSlow, JNum (Num 200)), (rsiPeriod, JNum (Num 14)),
          (atrPeriod, JNum (Num 14)), (atrStopMultiplier, JNum (Num 2)),
          (takeProfitRMultiple, JNum (Num 2)), (trailingStopATR, JNum (Num (3 / 2))),
          (dailyLossLimitPct, JNum (Num 5)), (maxDrawdownPct, JNum (Num 20)),
          (liveTrading, JStr (js ''false'')), (magicNumber, JNum (Num 424242))]"
    by code_simp
  have r: "handleChange initial_form symbols [] symbols = Some (JStr [])"
    by (simp add: handleChange_def)
  from symbols_is_the_raw_string [OF p] r p show ?thesis
    by simp
qed

text \<open>The claim as stated fails: the form with the symbols control cleared validates, and the
  configuration holds the empty string.\<close>

theorem empty_symbols_accepted:
  "parsed (handleChange initial_form symbols []) =
     Inr [(symbols, JStr []), (timeframe, JStr (js ''M15'')),
          (riskPerTradePct, JNum (Num 1)), (maxOpenPositions, JNum (Num 3)),
          (emaFast, JNum (Num 50)), (emaSlow, JNum (Num 200)), (rsiPeriod, JNum (Num 14)),
          (atrPeriod, JNum (Num 14)), (atrStopMultiplier, JNum (Num 2)),
          (takeProfitRMultiple, JNum (Num 2)), (trailingStopATR, JNum (Num (3 / 2))),
          (dailyLossLimitPct, JNum (Num 5)), (maxDrawdownPct, JNum (Num 20)),
          (liveTrading, JStr (js ''false'')), (magicNumber, JNum (Num 424242))]"
  by code_simp

text \<open>
  C6. Enum enforcement: the enumeration fields of the schema are \<open>timeframe\<close> and
  \<open>liveTrading\<close> with their fixed tokens. With every other field valid, a value of such a
  field validates exactly when it is a string equal to one of the tokens (code unit for code
  unit, so with no case folding), and a string that is none of them fails with one
  \<open>invalid_enum_value\<close> issue on that field.
\<close>

theorem enum_enforcement:
  "[(fst e, fst (snd e)). e \<leftarrow> StrategySchema, case fst (snd e) of ZodEnum _ \<Rightarrow> True | _ \<Rightarrow> False]
     = [(timeframe,
          ZodEnum [js ''M1'', js ''M5'', js ''M15'', js ''M30'', js ''H1'', js ''H4'', js ''D1'']),
        (liveTrading, ZodEnum [js ''false'', js ''true''])]
   \<and> ((k, ZodEnum options, d) \<in> set StrategySchema \<and> parsed form = Inr data \<longrightarrow>
        (\<not> isl (parsed (form(k \<mapsto> v))) \<longleftrightarrow> (\<exists>s. v = JStr s \<and> s \<in> set options))
        \<and> (s \<notin> set options \<longrightarrow>
             parsed (handleChange form k s) = Inl [ZodIssue k (invalid_enum_value s options)]))"
proof -
  have table: "[(fst e, fst (snd e)). e \<leftarrow> StrategySchema, case fst (snd e) of ZodEnum _ \<Rightarrow> True | _ \<Rightarrow> False]
     = [(timeframe,
          ZodEnum [js ''M1'', js ''M5'', js ''M15'', js ''M30'', js ''H1'', js ''H4'', js ''D1'']),
        (liveTrading, ZodEnum [js ''false'', js ''true''])]"
    by (simp add: StrategySchema_def)
  have general: "(\<not> isl (parsed (form(k \<mapsto> v))) \<longleftrightarrow> (\<exists>s. v = JStr s \<and> s \<in> set options))
        \<and> (s \<notin> set options \<longrightarrow>
             parsed (handleChange form k s) = Inl [ZodIssue k (invalid_enum_value s options)])"
    if e: "(k, ZodEnum options, d) \<in> set StrategySchema" and p: "parsed form = Inr data"
  proof -
    have a: "\<not> isl (parsed (form(k \<mapsto> v))) \<longleftrightarrow> (\<exists>s. v = JStr s \<and> s \<in> set options)"
      unfolding parsed_update [OF p e] using parse_enum_ok [of options v] by simp
    have b: "parsed (handleChange form k s) = Inl [ZodIssue k (invalid_enum_value s options)]"
      if "s \<notin> set options"
      unfolding handleChange_def parsed_update [OF p e] using that
      by (simp add: parse_type_def)
    from a b show ?thesis by blast
  qed
  from table general show ?thesis by blast
qed

theorem enum_enforcement_witness:
  "(timeframe, ZodEnum [js ''M1'', js ''M5'', js ''M15'', js ''M30'', js ''H1'', js ''H4'', js ''D1''],
      JStr (js ''M15'')) \<in> set StrategySchema
   \<and> \<not> isl (parsed initial_form)
   \<and> \<not> isl (parsed (initial_form(timeframe \<mapsto> JStr (js ''M15''))))
   \<and> isl (parsed (initial_form(timeframe \<mapsto> JStr (js ''m15''))))
   \<and> js ''M16'' \<notin> set [js ''M1'', js ''M5'', js ''M15'', js ''M30'', js ''H1'', js ''H4'', js ''D1'']
   \<and> parsed (handleChange initial_form timeframe (js ''M16'')) =
        Inl [ZodIssue timeframe
               (invalid_enum_value (js ''M16'')
                  [js ''M1'', js ''M5'', js ''M15'', js ''M30'', js ''H1'', js ''H4'', js ''D1''])]"
proof -
  let ?options = "[js ''M1'', js ''M5'', js ''M15'', js ''M30'', js ''H1'', js ''H4'', js ''D1'']"
  have e: "(timeframe, ZodEnum ?options, JStr (js ''M15'')) \<in> set StrategySchema"
    by (simp add: StrategySchema_def)
  have v: "\<not> isl (parsed initial_form)"
    by code_simp
  then obtain data where p: "parsed initial_form = Inr data"
    by (cases "parsed initial_form") simp_all
  have m15: "\<exists>s. JStr (js ''M15'') = JStr s \<and> s \<in> set ?options"
    by simp
  have lower: "\<not> (\<exists>s. JStr (js ''m15'') = JStr s \<and> s \<in> set ?options)"
    by (simp add: js_def)
  have m16: "js ''M16'' \<notin> set ?options"
    by (simp add: js_def)
  from enum_enforcement [of timeframe ?options "JStr (js ''M15'')" initial_form data
      "JStr (js ''M15'')" "js ''M16''"]
    enum_enforcement [of timeframe ?options "JStr (js ''M15'')" initial_form data
      "JStr (js ''m15'')" "js ''M16''"]
    e v p m15 lower m16
  show ?thesis
    by blast
qed

text \<open>
  C4. Range enforcement with inclusive endpoints: every numeric field of the schema has a
  minimum and a maximum. With every other field valid, a value equal to the minimum or to the
  maximum validates; a value one below the minimum fails with the single issue \<open>too_small\<close>
  on that field, and a value one above the maximum with the single issue \<open>too_big\<close>.
\<close>

theorem range_enforcement:
  "[(fst e, fst (snd e)). e \<leftarrow> StrategySchema,
      case fst (snd e) of ZodCoerceNumber _ \<Rightarrow> True | _ \<Rightarrow> False]
     = [(riskPerTradePct, ZodCoerceNumber [check_min 0, check_max 10]),
        (maxOpenPositions, ZodCoerceNumber [check_int, check_min 1, check_max 20]),
        (emaFast, ZodCoerceNumber [check_int, check_min 2, check_max 200]),
        (emaSlow, ZodCoerceNumber [check_int, check_min 5, check_max 400]),
        (rsiPeriod, ZodCoerceNumber [check_int, check_min 2, check_max 50]),
        (atrPeriod, ZodCoerceNumber [check_int, check_min 5, check_max 100]),
        (atrStopMultiplier, ZodCoerceNumber [check_min (1 / 10), check_max 10]),
        (takeProfitRMultiple, ZodCoerceNumber [check_min (1 / 10), check_max 10]),
        (trailingStopATR, ZodCoerceNumber [check_min 0, check_max 10]),
        (dailyLossLimitPct, ZodCoerceNumber [check_min 0, check_max 50]),
        (maxDrawdownPct, ZodCoerceNumber [check_min 0, check_max 90]),
        (magicNumber, ZodCoerceNumber [check_int, check_min 1, check_max 999999])]
   \<and> ((k, ZodCoerceNumber checks, d) \<in> set StrategySchema
        \<and> check_min lo \<in> set checks \<and> check_max hi \<in> set checks
        \<and> parsed form = Inr data
        \<and> Number v_min = Num lo \<and> Number v_max = Num hi
        \<and> Number v_below = Num (lo - 1) \<and> Number v_above = Num (hi + 1)
       \<longrightarrow> \<not> isl (parsed (form(k \<mapsto> v_min)))
           \<and> \<not> isl (parsed (form(k \<mapsto> v_max)))
           \<and> parsed (form(k \<mapsto> v_below)) = Inl [ZodIssue k (too_small lo)]
           \<and> parsed (form(k \<mapsto> v_above)) = Inl [ZodIssue k (too_big hi)])"
proof -
  have table: "[(fst e, fst (snd e)). e \<leftarrow> StrategySchema,
      case fst (snd e) of ZodCoerceNumber _ \<Rightarrow> True | _ \<Rightarrow> False]
     = [(riskPerTradePct, ZodCoerceNumber [check_min 0, check_max 10]),
        (maxOpenPositions, ZodCoerceNumber [check_int, check_min 1, check_max 20]),
        (emaFast, ZodCoerceNumber [check_int, check_min 2, check_max 200]),
        (emaSlow, ZodCoerceNumber [check_int, check_min 5, check_max 400]),
        (rsiPeriod, ZodCoerceNumber [check_int, check_min 2, check_max 50]),
        (atrPeriod, ZodCoerceNumber [check_int, check_min 5, check_max 100]),
        (atrStopMultiplier, ZodCoerceNumber [check_min (1 / 10), check_max 10]),
        (takeProfitRMultiple, ZodCoerceNumber [check_min (1 / 10), check_max 10]),
        (trailingStopATR, ZodCoerceNumber [check_min 0, check_max 10]),
        (dailyLossLimitPct, ZodCoerceNumber [check_min 0, check_max 50]),
        (maxDrawdownPct, ZodCoerceNumber [check_min 0, check_max 90]),
        (magicNumber, ZodCoerceNumber [check_int, check_min 1, check_max 999999])]"
    by (simp add: StrategySchema_def)
  have general: "\<not> isl (parsed (form(k \<mapsto> v_min)))
           \<and> \<not> isl (parsed (form(k \<mapsto> v_max)))
           \<and> parsed (form(k \<mapsto> v_below)) = Inl [ZodIssue k (too_small lo)]
           \<and> parsed (form(k \<mapsto> v_above)) = Inl [ZodIssue k (too_big hi)]"
    if e: "(k, ZodCoerceNumber checks, d) \<in> set StrategySchema"
      and lo: "check_min lo \<in> set checks" and hi: "check_max hi \<in> set checks"
      and p: "parsed form = Inr data"
      and v: "Number v_min = Num lo" "Number v_max = Num hi"
        "Number v_below = Num (lo - 1)" "Number v_above = Num (hi + 1)"
    unfolding parsed_update [OF p e]
    by (simp add: parse_number [OF v(1)] parse_number [OF v(2)] parse_number [OF v(3)]
        parse_number [OF v(4)] run_checks_bounds [OF e lo hi])
  from table general show ?thesis by blast
qed

theorem range_enforcement_witness:
  "(atrStopMultiplier, ZodCoerceNumber [check_min (1 / 10), check_max 10], JNum (Num 2))
     \<in> set StrategySchema
   \<and> \<not> isl (parsed initial_form)
   \<and> Number (JStr (js ''0.1'')) = Num (1 / 10) \<and> Number (JStr (js ''10'')) = Num 10
   \<and> Number (JStr (js ''-0.9'')) = Num (1 / 10 - 1) \<and> Number (JNum (Num 11)) = Num (10 + 1)
   \<and> \<not> isl (parsed (initial_form(atrStopMultiplier \<mapsto> JStr (js ''0.1''))))
   \<and> \<not> isl (parsed (initial_form(atrStopMultiplier \<mapsto> JStr (js ''10''))))
   \<and> parsed (initial_form(atrStopMultiplier \<mapsto> JStr (js ''-0.9''))) =
        Inl [ZodIssue atrStopMultiplier (too_small (1 / 10))]
   \<and> parsed (initial_form(atrStopMultiplier \<mapsto> JNum (Num 11))) =
        Inl [ZodIssue atrStopMultiplier (too_big 10)]"
proof -
  have e: "(atrStopMultiplier, ZodCoerceNumber [check_min (1 / 10), check_max 10], JNum (Num 2))
     \<in> set StrategySchema"
    by (simp add: StrategySchema_def)
  have v: "\<not> isl (parsed initial_form)"
    by code_simp
  then obtain data where p: "parsed initial_form = Inr data"
    by (cases "parsed initial_form") simp_all
  have n: "Number (JStr (js ''0.1'')) = Num (1 / 10)" "Number (JStr (js ''10'')) = Num 10"
    "Number (JStr (js ''-0.9'')) = Num (1 / 10 - 1)" "Number (JNum (Num 11)) = Num (10 + 1)"
    by code_simp+
  from range_enforcement [of atrStopMultiplier "[check_min (1 / 10), check_max 10]"
      "JNum (Num 2)" "1 / 10" 10 initial_form data "JStr (js ''0.1'')" "JStr (js ''10'')"
      "JStr (js ''-0.9'')" "JNum (Num 11)"] e v p n
  show ?thesis
    by simp
qed







text \<open>
  C8. Invocation string format: for every form state that validates, in either environment,
  the command is the text \<^verbatim>\<open>python mt5_connector/connector.py --config-b64 '\<close>, the payload
  and a closing quote: four tokens separated by single spaces, the last being the quoted
  payload. Every character of the payload is in the base-64 alphabet, so the payload holds no
  line break, no space and no quote; and the command holds no line break.
\<close>

theorem invocation_format:
  "parsed form = Inr data \<longrightarrow>
     (\<exists>p cmd. b64 env form = Some p \<and> pythonCmd env form = Some cmd
        \<and> cmd = js ''python mt5_connector/connector.py --config-b64 '' @ [0x27] @ p @ [0x27]
        \<and> cmd = joinWith [0x20]
                  [js ''python'', js ''mt5_connector/connector.py'', js ''--config-b64'',
                   [0x27] @ p @ [0x27]]
        \<and> list_all isBase64Char p
        \<and> list_all (\<lambda>c. c \<noteq> 0x0A \<and> c \<noteq> 0x0D \<and> c \<noteq> 0x20 \<and> c \<noteq> 0x27) p
        \<and> list_all (\<lambda>c. c \<noteq> 0x0A \<and> c \<noteq> 0x0D) cmd)"
proof
  assume p: "parsed form = Inr data"
  from toBase64_alphabet [of env data] obtain p where t: "toBase64 env data = Some p"
    and a: "list_all isBase64Char p"
    by blast
  define cmd where
    "cmd = js ''python mt5_connector/connector.py --config-b64 '' @ [0x27] @ p @ [0x27]"
  have b: "b64 env form = Some p"
    using p t by (simp add: b64_def)
  have c: "pythonCmd env form = Some cmd"
    using p b by (simp add: pythonCmd_def cmd_def)
  have j: "cmd = joinWith [0x20]
                  [js ''python'', js ''mt5_connector/connector.py'', js ''--config-b64'',
                   [0x27] @ p @ [0x27]]"
    by (simp add: cmd_def js_def)
  have n: "list_all (\<lambda>c. c \<noteq> 0x0A \<and> c \<noteq> 0x0D \<and> c \<noteq> 0x20 \<and> c \<noteq> 0x27) p"
    using a alphabet_no_break by (simp add: list_all_iff)
  then have "list_all (\<lambda>c. c \<noteq> 0x0A \<and> c \<noteq> 0x0D) p"
    by (simp add: list_all_iff)
  then have l: "list_all (\<lambda>c. c \<noteq> 0x0A \<and> c \<noteq> 0x0D) cmd"
    by (simp add: cmd_def js_def)
  from b c j a n l show "\<exists>p cmd. b64 env form = Some p \<and> pythonCmd env form = Some cmd
        \<and> cmd = js ''python mt5_connector/connector.py --config-b64 '' @ [0x27] @ p @ [0x27]
        \<and> cmd = joinWith [0x20]
                  [js ''python'', js ''mt5_connector/connector.py'', js ''--config-b64'',
                   [0x27] @ p @ [0x27]]
        \<and> list_all isBase64Char p
        \<and> list_all (\<lambda>c. c \<noteq> 0x0A \<and> c \<noteq> 0x0D \<and> c \<noteq> 0x20 \<and> c \<noteq> 0x27) p
        \<and> list_all (\<lambda>c. c \<noteq> 0x0A \<and> c \<noteq> 0x0D) cmd"
    using cmd_def by blast
qed

theorem invocation_format_witness:
  "parsed initial_form =
     Inr [(symbols, JStr (js ''EURUSD,GBPUSD'')), (timeframe, JStr (js ''M15'')),
          (riskPerTradePct, JNum (Num 1)), (maxOpenPositions, JNum (Num 3)),
          (emaFast, JNum (Num 50)), (emaSlow, JNum (Num 200)), (rsiPeriod, JNum (Num 14)),
          (atrPeriod, JNum (Num 14)), (atrStopMultiplier, JNum (Num 2)),
          (takeProfitRMultiple, JNum (Num 2)), (trailingStopATR, JNum (Num (3 / 2))),
          (dailyLossLimitPct, JNum (Num 5)), (maxDrawdownPct, JNum (Num 20)),
          (liveTrading, JStr (js ''false'')), (magicNumber, JNum (Num 424242))]
   \<and> (\<exists>p. b64 Browser initial_form = Some p
        \<and> pythonCmd Browser initial_form =
            Some (js ''python mt5_connector/connector.py --config-b64 '' @ [0x27] @ p @ [0x27])
        \<and> list_all isBase64Char p)"
proof -
  have p: "parsed initial_form =
     Inr [(symbols, JStr (js ''EURUSD,GBPUSD'')), (timeframe, JStr (js ''M15'')),
          (riskPerTradePct, JNum (Num 1)), (maxOpenPositions, JNum (Num 3)),
          (emaFast, JNum (Num 50)), (emaSlow, JNum (Num 200)), (rsiPeriod, JNum (Num 14)),
          (atrPeriod, JNum (Num 14)), (atrStopMultiplier, JNum (Num 2)),
          (takeProfitRMultiple, JNum (Num 2)), (trailingStopATR, JNum (Num (3 / 2))),
          (dailyLossLimitPct, JNum (Num 5)), (maxDrawdownPct, JNum (Num 20)),
          (liveTrading, JStr (js ''false'')), (magicNumber, JNum (Num 424242))]"
    by code_simp
  from invocation_format [of initial_form _ Browser] p show ?thesis
    by blast
qed

text \<open>
  C1, as amended. Where \<^verbatim>\<open>window\<close> is defined, for every configuration the payload is the
  base-64 text of the UTF-8 octets of the serialization, and decoding the payload gives the
  serialization back, code unit for code unit. (Where \<^verbatim>\<open>window\<close> is undefined the payload is
  empty, see C10.)
\<close>

theorem payload_round_trip:
  "toBase64 Browser json = Some (base64 (UTF8 (JSON_stringify json)))
   \<and> decode (base64 (UTF8 (JSON_stringify json))) = Some (JSON_stringify json)"
  using toBase64_Browser decode_payload by blast

text \<open>The claim as stated fails: where \<^verbatim>\<open>window\<close> is undefined the payload of the default
  configuration is the empty string, which decodes to the empty text and not to the
  serialization.\<close>

theorem payload_lost_without_window:
  "toBase64 Server
     [(symbols, JStr (js ''EURUSD,GBPUSD'')), (timeframe, JStr (js ''M15'')),
      (riskPerTradePct, JNum (Num 1)), (maxOpenPositions, JNum (Num 3)),
      (emaFast, JNum (Num 50)), (emaSlow, JNum (Num 200)), (rsiPeriod, JNum (Num 14)),
      (atrPeriod, JNum (Num 14)), (atrStopMultiplier, JNum (Num 2)),
      (takeProfitRMultiple, JNum (Num 2)), (trailingStopATR, JNum (Num (3 / 2))),
      (dailyLossLimitPct, JNum (Num 5)), (maxDrawdownPct, JNum (Num 20)),
      (liveTrading, JStr (js ''false'')), (magicNumber, JNum (Num 424242))] = Some []
   \<and> decode [] = Some []
   \<and> JSON_stringify
     [(symbols, JStr (js ''EURUSD,GBPUSD'')), (timeframe, JStr (js ''M15'')),
      (riskPerTradePct, JNum (Num 1)), (maxOpenPositions, JNum (Num 3)),
      (emaFast, JNum (Num 50)), (emaSlow, JNum (Num 200)), (rsiPeriod, JNum (Num 14)),
      (atrPeriod, JNum (Num 14)), (atrStopMultiplier, JNum (Num 2)),
      (takeProfitRMultiple, JNum (Num 2)), (trailingStopATR, JNum (Num (3 / 2))),
      (dailyLossLimitPct, JNum (Num 5)), (maxDrawdownPct, JNum (Num 20)),
      (liveTrading, JStr (js ''false'')), (magicNumber, JNum (Num 424242))] \<noteq> []"
  by (simp add: toBase64_def window_undefined_def decode_def JSON_stringify_def)

end
